theory Spec2Isabelle
  imports Main "HOL-Library.Sublist"
begin

section \<open>Python strings and spreadsheet cell values\<close>

text \<open>
  A Python \<open>str\<close> is a sequence of Unicode code points and \<open>len\<close> counts code points,
  so a string is modelled as a list of code points. The kana that the conjugation tables
  use are named after their Unicode names (HIRAGANA LETTER RU is \<open>k_ru\<close>).
\<close>

type_synonym ustr = "nat list"

definition asc :: "string \<Rightarrow> ustr" where
  "asc s = map of_char s"

abbreviation (input) k_i :: nat where "k_i \<equiv> 0x3044"
abbreviation (input) k_u :: nat where "k_u \<equiv> 0x3046"
abbreviation (input) k_e :: nat where "k_e \<equiv> 0x3048"
abbreviation (input) k_o :: nat where "k_o \<equiv> 0x304A"
abbreviation (input) k_ka :: nat where "k_ka \<equiv> 0x304B"
abbreviation (input) k_ga :: nat where "k_ga \<equiv> 0x304C"
abbreviation (input) k_ki :: nat where "k_ki \<equiv> 0x304D"
abbreviation (input) k_gi :: nat where "k_gi \<equiv> 0x304E"
abbreviation (input) k_ku :: nat where "k_ku \<equiv> 0x304F"
abbreviation (input) k_gu :: nat where "k_gu \<equiv> 0x3050"
abbreviation (input) k_ke :: nat where "k_ke \<equiv> 0x3051"
abbreviation (input) k_ge :: nat where "k_ge \<equiv> 0x3052"
abbreviation (input) k_ko :: nat where "k_ko \<equiv> 0x3053"
abbreviation (input) k_go :: nat where "k_go \<equiv> 0x3054"
abbreviation (input) k_sa :: nat where "k_sa \<equiv> 0x3055"
abbreviation (input) k_si :: nat where "k_si \<equiv> 0x3057"
abbreviation (input) k_zi :: nat where "k_zi \<equiv> 0x3058"
abbreviation (input) k_su :: nat where "k_su \<equiv> 0x3059"
abbreviation (input) k_zu :: nat where "k_zu \<equiv> 0x305A"
abbreviation (input) k_se :: nat where "k_se \<equiv> 0x305B"
abbreviation (input) k_so :: nat where "k_so \<equiv> 0x305D"
abbreviation (input) k_ta :: nat where "k_ta \<equiv> 0x305F"
abbreviation (input) k_da :: nat where "k_da \<equiv> 0x3060"
abbreviation (input) k_ti :: nat where "k_ti \<equiv> 0x3061"
abbreviation (input) k_small_tu :: nat where "k_small_tu \<equiv> 0x3063"
abbreviation (input) k_tu :: nat where "k_tu \<equiv> 0x3064"
abbreviation (input) k_te :: nat where "k_te \<equiv> 0x3066"
abbreviation (input) k_de :: nat where "k_de \<equiv> 0x3067"
abbreviation (input) k_to :: nat where "k_to \<equiv> 0x3068"
abbreviation (input) k_na :: nat where "k_na \<equiv> 0x306A"
abbreviation (input) k_ni :: nat where "k_ni \<equiv> 0x306B"
abbreviation (input) k_nu :: nat where "k_nu \<equiv> 0x306C"
abbreviation (input) k_ne :: nat where "k_ne \<equiv> 0x306D"
abbreviation (input) k_no :: nat where "k_no \<equiv> 0x306E"
abbreviation (input) k_ha :: nat where "k_ha \<equiv> 0x306F"
abbreviation (input) k_ba :: nat where "k_ba \<equiv> 0x3070"
abbreviation (input) k_bi :: nat where "k_bi \<equiv> 0x3073"
abbreviation (input) k_bu :: nat where "k_bu \<equiv> 0x3076"
abbreviation (input) k_be :: nat where "k_be \<equiv> 0x3079"
abbreviation (input) k_bo :: nat where "k_bo \<equiv> 0x307C"
abbreviation (input) k_ma :: nat where "k_ma \<equiv> 0x307E"
abbreviation (input) k_mi :: nat where "k_mi \<equiv> 0x307F"
abbreviation (input) k_mu :: nat where "k_mu \<equiv> 0x3080"
abbreviation (input) k_me :: nat where "k_me \<equiv> 0x3081"
abbreviation (input) k_mo :: nat where "k_mo \<equiv> 0x3082"
abbreviation (input) k_small_ya :: nat where "k_small_ya \<equiv> 0x3083"
abbreviation (input) k_yo :: nat where "k_yo \<equiv> 0x3088"
abbreviation (input) k_ra :: nat where "k_ra \<equiv> 0x3089"
abbreviation (input) k_ri :: nat where "k_ri \<equiv> 0x308A"
abbreviation (input) k_ru :: nat where "k_ru \<equiv> 0x308B"
abbreviation (input) k_re :: nat where "k_re \<equiv> 0x308C"
abbreviation (input) k_ro :: nat where "k_ro \<equiv> 0x308D"
abbreviation (input) k_wa :: nat where "k_wa \<equiv> 0x308F"
abbreviation (input) k_wo :: nat where "k_wo \<equiv> 0x3092"
abbreviation (input) k_n :: nat where "k_n \<equiv> 0x3093"
abbreviation (input) c_tilde :: nat where "c_tilde \<equiv> 0xFF5E"
abbreviation (input) c_quote :: nat where "c_quote \<equiv> 0x27"
abbreviation (input) c_newline :: nat where "c_newline \<equiv> 0x0A"

text \<open>
  The values that reach the functions come from spreadsheet cells read by pandas: a text
  cell is a \<open>str\<close>, a missing cell is the float NaN, a numeric cell is an integer or
  a float, and the scripts themselves pass \<open>None\<close>. The functions use a value only
  through \<open>not x\<close>, \<open>pd.isna(x)\<close> and \<open>str(x)\<close>, so a number other than NaN is
  \<open>PNum b s\<close>: its truth value \<open>b\<close> (false for zero) and its string form \<open>s\<close>, which
  are left free since the theorems hold for every such pair. \<open>truthy\<close> is Python's
  truth value (\<open>not x\<close> is its negation: \<open>None\<close> and the empty string are false, NaN
  is a non-zero float and so true), \<open>isna\<close> is \<open>pd.isna\<close>, \<open>py_str\<close> is \<open>str(x)\<close>.
\<close>

datatype pyval = PNone | PNaN | PStr ustr | PNum bool ustr

fun truthy :: "pyval \<Rightarrow> bool" where
  "truthy PNone = False"
| "truthy PNaN = True"
| "truthy (PStr s) = (s \<noteq> [])"
| "truthy (PNum b s) = b"

fun isna :: "pyval \<Rightarrow> bool" where
  "isna PNone = True"
| "isna PNaN = True"
| "isna (PStr s) = False"
| "isna (PNum b s) = False"

fun py_str :: "pyval \<Rightarrow> ustr" where
  "py_str PNone = [78, 111, 110, 101]"
| "py_str PNaN = [110, 97, 110]"
| "py_str (PStr s) = s"
| "py_str (PNum b s) = s"

text \<open>
  \<open>str.strip()\<close> without arguments removes the leading and trailing characters for which
  \<open>str.isspace\<close> holds; \<open>is_space\<close> lists them (U+3000 is the ideographic space).
\<close>

definition is_space :: "nat \<Rightarrow> bool" where
  "is_space c =
     ((9 \<le> c \<and> c \<le> 13) \<or> (28 \<le> c \<and> c \<le> 32) \<or> c = 0x85 \<or> c = 0xA0 \<or> c = 0x1680 \<or>
      (0x2000 \<le> c \<and> c \<le> 0x200A) \<or> c = 0x2028 \<or> c = 0x2029 \<or> c = 0x202F \<or>
      c = 0x205F \<or> c = 0x3000)"

definition strip :: "ustr \<Rightarrow> ustr" where
  "strip s = rev (dropWhile is_space (rev (dropWhile is_space s)))"

text \<open>\<open>s.endswith(e)\<close>.\<close>

definition endswith :: "ustr \<Rightarrow> ustr \<Rightarrow> bool" where
  "endswith s e = (length e \<le> length s \<and> drop (length s - length e) s = e)"

text \<open>
  The slice \<open>s[:-n]\<close> for \<open>n = len(ending)\<close>: all but the last \<open>n\<close> characters
  (and the empty string for \<open>n = 0\<close>, where Python reads \<open>s[:0]\<close>).
\<close>

definition slice_end :: "nat \<Rightarrow> ustr \<Rightarrow> ustr" where
  "slice_end n s = (if n = 0 then [] else take (length s - n) s)"

text \<open>
  \<open>s.index(p)\<close> is the lowest index at which \<open>p\<close> occurs in \<open>s\<close>; it raises ValueError
  when \<open>p\<close> does not occur, which is \<open>None\<close> here. \<open>p in s\<close> is \<open>py_in p s\<close>.
\<close>

fun str_index :: "ustr \<Rightarrow> ustr \<Rightarrow> nat option" where
  "str_index p [] = (if p = [] then Some 0 else None)"
| "str_index p (c # cs) =
     (if prefix p (c # cs) then Some 0 else map_option Suc (str_index p cs))"

definition py_in :: "ustr \<Rightarrow> ustr \<Rightarrow> bool" where
  "py_in p s = (str_index p s \<noteq> None)"

text \<open>\<open>s.split(c)\<close> and \<open>s.replace(c, '')\<close> for a separator \<open>c\<close> of one character.\<close>

fun split_on :: "nat \<Rightarrow> ustr \<Rightarrow> ustr list" where
  "split_on c [] = [[]]"
| "split_on c (x # xs) =
     (if x = c then [] # split_on c xs
      else (case split_on c xs of [] \<Rightarrow> [[x]] | p # ps \<Rightarrow> (x # p) # ps))"

definition remove_char :: "nat \<Rightarrow> ustr \<Rightarrow> ustr" where
  "remove_char c s = filter (\<lambda>x. x \<noteq> c) s"

text \<open>\<open>sep.join(xs)\<close>.\<close>

fun py_join :: "ustr \<Rightarrow> ustr list \<Rightarrow> ustr" where
  "py_join sep [] = []"
| "py_join sep [x] = x"
| "py_join sep (x # y # ys) = x @ sep @ py_join sep (y # ys)"

section \<open>Pattern generation: \<open>get_stem_patterns\<close>\<close>

text \<open>
  \<open>re.sub(r'[...]', '', kanji).strip()\<close>: the marker characters of the character class are
  the fullwidth and ASCII asterisk, the plus sign, fullwidth and ASCII parentheses and the
  circled digits one to five.
\<close>

definition is_marker :: "nat \<Rightarrow> bool" where
  "is_marker c =
     (c = 0xFF0A \<or> c = 0x2A \<or> c = 0x2B \<or> c = 0xFF08 \<or> c = 0xFF09 \<or> c = 0x28 \<or> c = 0x29 \<or>
      (0x2460 \<le> c \<and> c \<le> 0x2464))"

definition clean_kanji :: "ustr \<Rightarrow> ustr" where
  "clean_kanji kanji = strip (filter (\<lambda>c. \<not> is_marker c) kanji)"

text \<open>
  The dictionary \<open>verb_endings\<close> of \<open>src/02_excel_to_sql.py\<close>, in insertion order (the
  order \<open>items()\<close> iterates in): each ending with its list of conjugation suffixes.
\<close>

definition verb_endings :: "(ustr \<times> ustr list) list" where
  "verb_endings =
  [([k_ru], [[], [k_te], [k_ta], [k_na, k_i], [k_ma, k_su], [k_re, k_ba], [k_yo, k_u], [k_ra, k_re, k_ru], [k_sa, k_se, k_ru], [k_te, k_i, k_ru], [k_te, k_i, k_ta], [k_te, k_ru], [k_te, k_ta], [k_zu], [k_zu, k_ni], [k_ta, k_i], [k_ta, k_ra], [k_ta, k_ri], [k_ro], [k_re], [k_sa, k_se], [k_ra, k_re], [k_na, k_ka, k_small_tu, k_ta], [k_ma, k_se, k_n]]),
   ([k_u], [[k_wa], [k_i], [k_small_tu, k_te], [k_small_tu, k_ta], [k_wa, k_na, k_i], [k_i, k_ma, k_su], [k_e, k_ba], [k_o, k_u], [k_wa, k_zu], [k_i, k_ta, k_i], [k_small_tu, k_ta, k_ra], [k_small_tu, k_ta, k_ri], [k_e], [k_wa, k_na, k_ka, k_small_tu, k_ta]]),
   ([k_ku], [[k_ka], [k_ki], [k_i, k_te], [k_i, k_ta], [k_ka, k_na, k_i], [k_ki, k_ma, k_su], [k_ke, k_ba], [k_ko, k_u], [k_ka, k_zu], [k_ki, k_ta, k_i], [k_i, k_ta, k_ra], [k_i, k_ta, k_ri], [k_ke], [k_ka, k_na, k_ka, k_small_tu, k_ta]]),
   ([k_gu], [[k_ga], [k_gi], [k_i, k_de], [k_i, k_da], [k_ga, k_na, k_i], [k_gi, k_ma, k_su], [k_ge, k_ba], [k_go, k_u], [k_ga, k_zu], [k_gi, k_ta, k_i], [k_i, k_da, k_ra], [k_i, k_da, k_ri], [k_ge], [k_ga, k_na, k_ka, k_small_tu, k_ta]]),
   ([k_su], [[k_sa], [k_si], [k_si, k_te], [k_si, k_ta], [k_sa, k_na, k_i], [k_si, k_ma, k_su], [k_se, k_ba], [k_so, k_u], [k_sa, k_zu], [k_si, k_ta, k_i], [k_si, k_ta, k_ra], [k_si, k_ta, k_ri], [k_se], [k_sa, k_na, k_ka, k_small_tu, k_ta]]),
   ([k_tu], [[k_ta], [k_ti], [k_small_tu, k_te], [k_small_tu, k_ta], [k_ta, k_na, k_i], [k_ti, k_ma, k_su], [k_te, k_ba], [k_to, k_u], [k_ta, k_zu], [k_ti, k_ta, k_i], [k_small_tu, k_ta, k_ra], [k_small_tu, k_ta, k_ri], [k_te], [k_ta, k_na, k_ka, k_small_tu, k_ta]]),
   ([k_nu], [[k_na], [k_ni], [k_n, k_de], [k_n, k_da], [k_na, k_na, k_i], [k_ni, k_ma, k_su], [k_ne, k_ba], [k_no, k_u], [k_na, k_zu], [k_ni, k_ta, k_i], [k_n, k_da, k_ra], [k_n, k_da, k_ri], [k_ne], [k_na, k_na, k_ka, k_small_tu, k_ta]]),
   ([k_bu], [[k_ba], [k_bi], [k_n, k_de], [k_n, k_da], [k_ba, k_na, k_i], [k_bi, k_ma, k_su], [k_be, k_ba], [k_bo, k_u], [k_ba, k_zu], [k_bi, k_ta, k_i], [k_n, k_da, k_ra], [k_n, k_da, k_ri], [k_be], [k_ba, k_na, k_ka, k_small_tu, k_ta]]),
   ([k_mu], [[k_ma], [k_mi], [k_n, k_de], [k_n, k_da], [k_ma, k_na, k_i], [k_mi, k_ma, k_su], [k_me, k_ba], [k_mo, k_u], [k_ma, k_zu], [k_mi, k_ta, k_i], [k_n, k_da, k_ra], [k_n, k_da, k_ri], [k_me], [k_ma, k_na, k_ka, k_small_tu, k_ta]])]"

text \<open>
  The dictionary \<open>verb_endings\<close> of \<open>src/SQL_test/02_excel_to_sql.py\<close>: the list of the
  ending RU stops at NAKATTA, it has no MASEN.
\<close>

definition verb_endings_sqltest :: "(ustr \<times> ustr list) list" where
  "verb_endings_sqltest =
  [([k_ru], [[], [k_te], [k_ta], [k_na, k_i], [k_ma, k_su], [k_re, k_ba], [k_yo, k_u], [k_ra, k_re, k_ru], [k_sa, k_se, k_ru], [k_te, k_i, k_ru], [k_te, k_i, k_ta], [k_te, k_ru], [k_te, k_ta], [k_zu], [k_zu, k_ni], [k_ta, k_i], [k_ta, k_ra], [k_ta, k_ri], [k_ro], [k_re], [k_sa, k_se], [k_ra, k_re], [k_na, k_ka, k_small_tu, k_ta]]),
   ([k_u], [[k_wa], [k_i], [k_small_tu, k_te], [k_small_tu, k_ta], [k_wa, k_na, k_i], [k_i, k_ma, k_su], [k_e, k_ba], [k_o, k_u], [k_wa, k_zu], [k_i, k_ta, k_i], [k_small_tu, k_ta, k_ra], [k_small_tu, k_ta, k_ri], [k_e], [k_wa, k_na, k_ka, k_small_tu, k_ta]]),
   ([k_ku], [[k_ka], [k_ki], [k_i, k_te], [k_i, k_ta], [k_ka, k_na, k_i], [k_ki, k_ma, k_su], [k_ke, k_ba], [k_ko, k_u], [k_ka, k_zu], [k_ki, k_ta, k_i], [k_i, k_ta, k_ra], [k_i, k_ta, k_ri], [k_ke], [k_ka, k_na, k_ka, k_small_tu, k_ta]]),
   ([k_gu], [[k_ga], [k_gi], [k_i, k_de], [k_i, k_da], [k_ga, k_na, k_i], [k_gi, k_ma, k_su], [k_ge, k_ba], [k_go, k_u], [k_ga, k_zu], [k_gi, k_ta, k_i], [k_i, k_da, k_ra], [k_i, k_da, k_ri], [k_ge], [k_ga, k_na, k_ka, k_small_tu, k_ta]]),
   ([k_su], [[k_sa], [k_si], [k_si, k_te], [k_si, k_ta], [k_sa, k_na, k_i], [k_si, k_ma, k_su], [k_se, k_ba], [k_so, k_u], [k_sa, k_zu], [k_si, k_ta, k_i], [k_si, k_ta, k_ra], [k_si, k_ta, k_ri], [k_se], [k_sa, k_na, k_ka, k_small_tu, k_ta]]),
   ([k_tu], [[k_ta], [k_ti], [k_small_tu, k_te], [k_small_tu, k_ta], [k_ta, k_na, k_i], [k_ti, k_ma, k_su], [k_te, k_ba], [k_to, k_u], [k_ta, k_zu], [k_ti, k_ta, k_i], [k_small_tu, k_ta, k_ra], [k_small_tu, k_ta, k_ri], [k_te], [k_ta, k_na, k_ka, k_small_tu, k_ta]]),
   ([k_nu], [[k_na], [k_ni], [k_n, k_de], [k_n, k_da], [k_na, k_na, k_i], [k_ni, k_ma, k_su], [k_ne, k_ba], [k_no, k_u], [k_na, k_zu], [k_ni, k_ta, k_i], [k_n, k_da, k_ra], [k_n, k_da, k_ri], [k_ne], [k_na, k_na, k_ka, k_small_tu, k_ta]]),
   ([k_bu], [[k_ba], [k_bi], [k_n, k_de], [k_n, k_da], [k_ba, k_na, k_i], [k_bi, k_ma, k_su], [k_be, k_ba], [k_bo, k_u], [k_ba, k_zu], [k_bi, k_ta, k_i], [k_n, k_da, k_ra], [k_n, k_da, k_ri], [k_be], [k_ba, k_na, k_ka, k_small_tu, k_ta]]),
   ([k_mu], [[k_ma], [k_mi], [k_n, k_de], [k_n, k_da], [k_ma, k_na, k_i], [k_mi, k_ma, k_su], [k_me, k_ba], [k_mo, k_u], [k_ma, k_zu], [k_mi, k_ta, k_i], [k_n, k_da, k_ra], [k_n, k_da, k_ri], [k_me], [k_ma, k_na, k_ka, k_small_tu, k_ta]])]"

definition i_adj_endings :: "ustr list" where
  "i_adj_endings =
     [[k_i], [k_ku], [k_ku, k_te], [k_ka, k_small_tu, k_ta], [k_ku, k_na, k_i],
      [k_ku, k_na, k_ka, k_small_tu, k_ta], [k_ke, k_re, k_ba], [k_sa], [k_so, k_u],
      [k_su, k_gi, k_ru], [k_su, k_gi], [k_mi]]"

text \<open>
  The loop over \<open>verb_endings.items()\<close>: for each ending the cleaned word ends with and
  that leaves a non-empty stem, the stem with every conjugation suffix, then the stem.
  The result is what the loop appends to \<open>patterns\<close>, in order.
\<close>

definition verb_patterns :: "(ustr \<times> ustr list) list \<Rightarrow> ustr \<Rightarrow> ustr list" where
  "verb_patterns table clean =
     concat (map (\<lambda>(ending, conjugations).
       if endswith clean ending
       then (let stem = slice_end (length ending) clean
             in if stem \<noteq> [] then map (\<lambda>conj. stem @ conj) conjugations @ [stem] else [])
       else []) table)"

definition i_adj_patterns :: "ustr \<Rightarrow> ustr list" where
  "i_adj_patterns clean =
     (if endswith clean [k_i] \<and> length clean > 1
      then (let stem = slice_end 1 clean in map (\<lambda>ending. stem @ ending) i_adj_endings @ [stem])
      else [])"

definition na_adj_patterns :: "ustr \<Rightarrow> ustr list" where
  "na_adj_patterns clean =
     (if endswith clean [k_na]
      then (let stem = slice_end 1 clean
            in [stem, stem @ [k_na], stem @ [k_ni], stem @ [k_da], stem @ [k_de],
                stem @ [k_da, k_small_tu, k_ta], stem @ [k_de, k_ha, k_na, k_i],
                stem @ [k_zi, k_small_ya, k_na, k_i]])
      else [])"

text \<open>
  The branch for a word that ends in NA between parentheses. Under its condition the
  word ends in an opening parenthesis, NA and a closing parenthesis, so the substitution
  \<open>re.sub(r'[\(...]NA[\)...]$', '', clean_kanji)\<close> removes exactly these last three
  characters.
\<close>

definition na_paren_patterns :: "ustr \<Rightarrow> ustr list" where
  "na_paren_patterns clean =
     (if endswith clean [0x28, k_na, 0x29] \<or> endswith clean [0xFF08, k_na, 0xFF09]
      then (let stem = take (length clean - 3) clean
            in [stem, stem @ [k_na], stem @ [k_ni], stem @ [k_da], stem @ [k_de]])
      else [])"

definition particles :: "nat list" where
  "particles = [k_ga, k_wo, k_ni, k_de, k_to, k_no]"

text \<open>
  The loop over the particles: the parts the word splits into at the particle, then the
  word without the particle. A particle is one character, so \<open>particle in clean_kanji\<close>
  is membership.
\<close>

definition particle_patterns :: "ustr \<Rightarrow> ustr list" where
  "particle_patterns clean =
     concat (map (\<lambda>particle.
       if particle \<in> set clean then split_on particle clean @ [remove_char particle clean]
       else []) particles)"

text \<open>
  The last loop of \<open>get_stem_patterns\<close>: it keeps the first occurrence of every non-empty
  pattern; \<open>seen\<close> is the set of the patterns kept so far.
\<close>

fun unique_patterns :: "ustr set \<Rightarrow> ustr list \<Rightarrow> ustr list" where
  "unique_patterns seen [] = []"
| "unique_patterns seen (p # ps) =
     (if p \<noteq> [] \<and> p \<notin> seen then p # unique_patterns (insert p seen) ps
      else unique_patterns seen ps)"

text \<open>
  \<open>fugashi\<close> is the optional MeCab wrapper. \<open>None\<close> is the \<open>ImportError\<close> branch
  (\<open>FUGASHI_AVAILABLE = False\<close>); \<open>Some g\<close> is an installed tagger, where \<open>g word\<close> is the
  list \<open>get_dictionary_form(word)\<close> returns: its content is MeCab's analysis and its order
  that of \<open>list(set(forms))\<close>, so the model takes it as a parameter.
\<close>

type_synonym fugashi = "(ustr \<Rightarrow> ustr list) option"

fun get_dictionary_form :: "fugashi \<Rightarrow> ustr \<Rightarrow> ustr list" where
  "get_dictionary_form None word = [word]"
| "get_dictionary_form (Some g) word = g word"

text \<open>The list \<open>patterns\<close> of \<open>src/02_excel_to_sql.py\<close> before the duplicates are removed.\<close>

definition all_patterns :: "fugashi \<Rightarrow> ustr \<Rightarrow> ustr list" where
  "all_patterns fug kanji =
     (let clean = clean_kanji kanji
      in [kanji]
         @ (if clean \<noteq> kanji then [clean] else [])
         @ (if fug \<noteq> None then get_dictionary_form fug clean else [])
         @ verb_patterns verb_endings clean
         @ i_adj_patterns clean
         @ na_adj_patterns clean
         @ na_paren_patterns clean
         @ particle_patterns clean)"

definition get_stem_patterns :: "fugashi \<Rightarrow> ustr \<Rightarrow> ustr list" where
  "get_stem_patterns fug kanji = unique_patterns {} (all_patterns fug kanji)"

text \<open>The same function in \<open>src/SQL_test/02_excel_to_sql.py\<close>, which has no fugashi.\<close>

definition all_patterns_sqltest :: "ustr \<Rightarrow> ustr list" where
  "all_patterns_sqltest kanji =
     (let clean = clean_kanji kanji
      in [kanji]
         @ (if clean \<noteq> kanji then [clean] else [])
         @ verb_patterns verb_endings_sqltest clean
         @ i_adj_patterns clean
         @ na_adj_patterns clean
         @ na_paren_patterns clean
         @ particle_patterns clean)"

definition get_stem_patterns_sqltest :: "ustr \<Rightarrow> ustr list" where
  "get_stem_patterns_sqltest kanji = unique_patterns {} (all_patterns_sqltest kanji)"

section \<open>Searching the sentence: \<open>find_word_in_sentence\<close>\<close>

text \<open>
  \<open>sorted(patterns, key=len, reverse=True)\<close>: a stable sort by decreasing length (with
  \<open>reverse=True\<close> patterns of equal length keep their order).
\<close>

definition sorted_by_len_desc :: "ustr list \<Rightarrow> ustr list" where
  "sorted_by_len_desc patterns = sort_key (\<lambda>p. - int (length p)) patterns"

text \<open>
  The search loop: the first pattern of the sorted list that is non-empty and occurs in
  the sentence splits the sentence at its lowest index. The triple
  \<open>(None, None, None)\<close> is \<open>None\<close>, a triple of strings is \<open>Some\<close>.
\<close>

fun search_patterns :: "ustr list \<Rightarrow> ustr \<Rightarrow> (ustr \<times> ustr \<times> ustr) option" where
  "search_patterns [] sentence = None"
| "search_patterns (pattern # rest) sentence =
     (if pattern \<noteq> [] \<and> py_in pattern sentence
      then (case str_index pattern sentence of
              Some idx \<Rightarrow>
                Some (take idx sentence, pattern, drop (idx + length pattern) sentence)
            | None \<Rightarrow> None)
      else search_patterns rest sentence)"

definition find_word_in_sentence ::
  "fugashi \<Rightarrow> pyval \<Rightarrow> pyval \<Rightarrow> (ustr \<times> ustr \<times> ustr) option" where
  "find_word_in_sentence fug kanji sentence =
     (if \<not> truthy sentence \<or> \<not> truthy kanji then None
      else if isna sentence \<or> isna kanji then None
      else (let sentence' = strip (py_str sentence);
                kanji' = strip (py_str kanji);
                patterns = get_stem_patterns fug kanji';
                patterns_sorted = sorted_by_len_desc patterns
            in search_patterns patterns_sorted sentence'))"

text \<open>The copy in \<open>src/SQL_test/02_excel_to_sql.py\<close> does not strip its arguments.\<close>

definition find_word_in_sentence_sqltest ::
  "pyval \<Rightarrow> pyval \<Rightarrow> (ustr \<times> ustr \<times> ustr) option" where
  "find_word_in_sentence_sqltest kanji sentence =
     (if \<not> truthy sentence \<or> \<not> truthy kanji then None
      else if isna sentence \<or> isna kanji then None
      else (let sentence' = py_str sentence;
                kanji' = py_str kanji;
                patterns = get_stem_patterns_sqltest kanji';
                patterns_sorted = sorted_by_len_desc patterns
            in search_patterns patterns_sorted sentence'))"

section \<open>The variant with conjugation suffixes (\<open>src/Process/02_excel_to_sql.py\<close>)\<close>



text \<open>
  \<open>patterns\<close> is a list of pairs (pattern, display suffix) that the function extends in
  place. \<open>add_form\<close> is the guarded append
  \<open>if form and form not in [p[0] for p in patterns]: patterns.append((form, display))\<close>;
  \<open>add_if_absent\<close> is the same without the test that the form is non-empty.
\<close>

definition add_form :: "(ustr \<times> ustr) list \<Rightarrow> ustr \<times> ustr \<Rightarrow> (ustr \<times> ustr) list" where
  "add_form patterns entry =
     (if fst entry \<noteq> [] \<and> fst entry \<notin> set (map fst patterns) then patterns @ [entry]
      else patterns)"

definition add_if_absent :: "(ustr \<times> ustr) list \<Rightarrow> ustr \<times> ustr \<Rightarrow> (ustr \<times> ustr) list" where
  "add_if_absent patterns entry =
     (if fst entry \<notin> set (map fst patterns) then patterns @ [entry] else patterns)"

text \<open>The loop \<open>for conj_suffix, display_suffix in conj_map.items()\<close>.\<close>

definition add_conjugations ::
  "ustr \<Rightarrow> (ustr \<times> ustr) list \<Rightarrow> (ustr \<times> ustr) list \<Rightarrow> (ustr \<times> ustr) list" where
  "add_conjugations stem conj_map patterns =
     foldl (\<lambda>pats item. add_form pats (stem @ fst item, snd item)) patterns conj_map"

text \<open>One round of the loop over \<open>VERB_CONJUGATION_MAP.items()\<close>.\<close>

definition verb_step ::
  "ustr \<Rightarrow> (ustr \<times> ustr) list \<Rightarrow> ustr \<times> (ustr \<times> ustr) list \<Rightarrow> (ustr \<times> ustr) list" where
  "verb_step clean patterns item =
     (if endswith clean (fst item)
      then (let stem = slice_end (length (fst item)) clean
            in if stem \<noteq> []
               then add_if_absent (add_conjugations stem (snd item) patterns) (stem, [c_tilde])
               else patterns)
      else patterns)"





section \<open>SQL generation\<close>

text \<open>\<open>s.replace("'", "''")\<close>: every single quote becomes two.\<close>

definition double_quotes :: "ustr \<Rightarrow> ustr" where
  "double_quotes s = concat (map (\<lambda>c. if c = c_quote then [c_quote, c_quote] else [c]) s)"

definition escape_sql_string :: "pyval \<Rightarrow> ustr" where
  "escape_sql_string v =
     (if isna v \<or> v = PNone then asc ''NULL''
      else (let s = double_quotes (py_str v) in [c_quote] @ s @ [c_quote]))"

text \<open>
  A text has no unpaired single quote when, read from the left, every single quote is
  followed by a second one that closes the pair.
\<close>

fun quotes_paired :: "ustr \<Rightarrow> bool" where
  "quotes_paired [] = True"
| "quotes_paired [c] = (c \<noteq> c_quote)"
| "quotes_paired (c # d # cs) =
     (if c = c_quote then d = c_quote \<and> quotes_paired cs else quotes_paired (d # cs))"

text \<open>\<open>str(n)\<close> for an integer: its decimal digits, after a minus sign when negative.\<close>

fun digits :: "nat \<Rightarrow> ustr" where
  "digits n = (if n < 10 then [48 + n] else digits (n div 10) @ [48 + n mod 10])"

definition str_int :: "int \<Rightarrow> ustr" where
  "str_int i = (if i < 0 then 45 # digits (nat (- i)) else digits (nat i))"

text \<open>
  One dictionary of \<open>all_vocabulary\<close>, as \<open>process_excel_file\<close> builds it: the numeric
  fields are an integer or \<open>None\<close>, the others a cell value.
\<close>

record vocabulary =
  v_level :: pyval
  v_ref_no :: "int option"
  v_kanji :: pyval
  v_hiragana :: pyval
  v_meaning_en :: pyval
  v_example_before :: pyval
  v_example_after :: pyval
  v_hint :: pyval
  v_full_sentence :: pyval
  v_page_no :: "int option"
  v_week :: "int option"
  v_day :: "int option"
  v_word_type :: pyval
  v_difficulty_level :: int

text \<open>\<open>{x or 'NULL'}\<close> for an integer or \<open>None\<close>: \<open>None\<close> and 0 are false.\<close>

definition int_or_null :: "int option \<Rightarrow> ustr" where
  "int_or_null x =
     (case x of None \<Rightarrow> asc ''NULL'' | Some n \<Rightarrow> if n = 0 then asc ''NULL'' else str_int n)"

definition schedule_id :: "vocabulary \<Rightarrow> ustr" where
  "schedule_id v =
     (case (v_week v, v_day v) of
        (Some w, Some d) \<Rightarrow>
          if w \<noteq> 0 \<and> d \<noteq> 0
          then asc ''(SELECT id FROM schedule WHERE week = '' @ str_int w @ asc '' AND day = ''
               @ str_int d @ asc '')''
          else asc ''NULL''
      | _ \<Rightarrow> asc ''NULL'')"

text \<open>
  The formatted string \<open>value\<close> of one entry: three lines, the first indented by four
  spaces and the others by five.
\<close>

definition value_tuple :: "vocabulary \<Rightarrow> ustr" where
  "value_tuple v =
     asc ''    ('' @ escape_sql_string (v_level v) @ asc '', '' @ int_or_null (v_ref_no v)
     @ asc '', '' @ escape_sql_string (v_kanji v) @ asc '', '' @ escape_sql_string (v_hiragana v)
     @ asc '', '' @ escape_sql_string (v_meaning_en v) @ asc '','' @ [c_newline]
     @ asc ''     '' @ escape_sql_string (v_example_before v) @ asc '', ''
     @ escape_sql_string (v_example_after v) @ asc '', '' @ escape_sql_string (v_hint v)
     @ asc '', '' @ escape_sql_string (v_full_sentence v) @ asc '','' @ [c_newline]
     @ asc ''     '' @ int_or_null (v_page_no v) @ asc '', '' @ schedule_id v @ asc '', ''
     @ escape_sql_string (v_word_type v) @ asc '', '' @ str_int (v_difficulty_level v)
     @ asc '')''"

definition sql_header_lines :: "ustr list" where
  "sql_header_lines =
     [asc ''-- ====================================================='',
      asc ''-- JLPT Vocabulary Data Import (N1 + N2 + N3)'',
      asc ''-- Generated by 02_excel_to_sql.py'',
      asc ''-- example_before and example_after are AUTO-GENERATED'',
      asc ''-- ====================================================='',
      [],
      asc ''-- Make sure to run 01_create_schema.sql first!'',
      [],
      asc ''BEGIN;'',
      [],
      asc ''-- Insert vocabulary data'',
      asc ''INSERT INTO vocabulary ('',
      asc ''    level, ref_no, kanji, hiragana, meaning_en,'',
      asc ''    example_before, example_after, hint, full_sentence,'',
      asc ''    page_no, schedule_id, word_type, difficulty_level'',
      asc '') VALUES'']"

definition sql_footer_lines :: "ustr list" where
  "sql_footer_lines =
     [asc '';'',
      [],
      asc ''COMMIT;'',
      [],
      asc ''-- Verify the import'',
      asc ''SELECT level, COUNT(*) as count FROM vocabulary GROUP BY level ORDER BY level;'',
      asc ''SELECT 'Total:' as level, COUNT(*) as count FROM vocabulary;'']"

definition generate_sql :: "vocabulary list \<Rightarrow> ustr" where
  "generate_sql all_vocabulary =
     (let values_list = map value_tuple all_vocabulary;
          sql_lines = sql_header_lines @ [py_join (asc '','' @ [c_newline]) values_list]
                      @ sql_footer_lines
      in py_join [c_newline] sql_lines)"

text \<open>
  Reading the SQL text that was produced. In SQL a single quote opens a string literal
  and the next single quote closes it; two single quotes in a row inside a literal stand
  for one quote, which a reader sees as the literal closing and opening again at once.
  Parentheses nest outside literals. \<open>scan_step\<close> reads one character in a state made of
  the depth of parentheses, whether a literal is open, the text of the tuple being read
  and the tuples read so far. A tuple runs from an opening parenthesis at depth 0 to the
  parenthesis that closes it; what stands at depth 0 (commas, spaces, newlines) is
  between tuples. \<open>sql_scan\<close> reads a whole text from the initial state, and
  \<open>sql_tuples\<close> is the list of the parenthesised tuples it finds.
\<close>

type_synonym scan_state = "nat \<times> bool \<times> ustr \<times> ustr list"

fun scan_step :: "scan_state \<Rightarrow> nat \<Rightarrow> scan_state" where
  "scan_step (depth, in_string, cur, tuples) c =
     (if in_string then (depth, c \<noteq> c_quote, (if depth > 0 then cur @ [c] else cur), tuples)
      else if c = c_quote then (depth, True, (if depth > 0 then cur @ [c] else cur), tuples)
      else if c = 0x28 then (depth + 1, False, cur @ [c], tuples)
      else if c = 0x29 then
        (if depth = 0 then (0, False, cur, tuples)
         else if depth = 1 then (0, False, [], tuples @ [cur @ [c]])
         else (depth - 1, False, cur @ [c], tuples))
      else (depth, False, (if depth > 0 then cur @ [c] else cur), tuples))"

definition sql_scan :: "ustr \<Rightarrow> scan_state" where
  "sql_scan text = foldl scan_step (0, False, [], []) text"

definition sql_tuples :: "ustr \<Rightarrow> ustr list" where
  "sql_tuples text = snd (snd (snd (sql_scan text)))"

text \<open>
  A text is neutral for the reader when, read inside a tuple and outside a literal, it
  is taken into the tuple whole and leaves the depth and the literal state as they were.
\<close>

definition scan_neutral :: "ustr \<Rightarrow> bool" where
  "scan_neutral xs =
     (\<forall>depth cur tuples. 0 < depth \<longrightarrow>
        foldl scan_step (depth, False, cur, tuples) xs = (depth, False, cur @ xs, tuples))"

section \<open>Facts about the string operations\<close>

text \<open>
  \<open>str_index\<close> returns an index at which the pattern occurs, no lower index has an
  occurrence, and it fails exactly when the pattern is not a contiguous sublist.
\<close>

lemma str_index_Some_split:
  "str_index p s = Some i \<Longrightarrow> s = take i s @ p @ drop (i + length p) s"
proof (induction s arbitrary: i)
  case Nil
  then show ?case by (simp split: if_splits)
next
  case (Cons c cs)
  show ?case
  proof (cases "prefix p (c # cs)")
    case True
    with Cons.prems have "i = 0" by simp
    with True show ?thesis by (auto simp: prefix_def)
  next
    case False
    with Cons.prems obtain j where j: "str_index p cs = Some j" "i = Suc j" by auto
    from Cons.IH[OF j(1)] j(2) show ?thesis by simp
  qed
qed

lemma str_index_least:
  "str_index p s = Some i \<Longrightarrow> j < i \<Longrightarrow> \<not> prefix p (drop j s)"
proof (induction s arbitrary: i j)
  case Nil
  then show ?case by (simp split: if_splits)
next
  case (Cons c cs)
  show ?case
  proof (cases "prefix p (c # cs)")
    case True
    with Cons.prems show ?thesis by simp
  next
    case False
    with Cons.prems obtain k where k: "str_index p cs = Some k" "i = Suc k" by auto
    show ?thesis
    proof (cases j)
      case 0
      with False show ?thesis by simp
    next
      case (Suc j')
      with Cons.prems k have "j' < k" by simp
      from Cons.IH[OF k(1) this] Suc show ?thesis by simp
    qed
  qed
qed

lemma str_index_None_iff: "str_index p s = None \<longleftrightarrow> \<not> sublist p s"
  by (induction s) (auto simp: sublist_Cons_right)

lemma py_in_iff_sublist: "py_in p s \<longleftrightarrow> sublist p s"
  by (simp add: py_in_def str_index_None_iff)

lemma sublist_eval: "sublist p s = py_in p s"
  by (simp add: py_in_iff_sublist)

text \<open>The loop that removes duplicates keeps exactly the non-empty patterns, once each.\<close>

lemma set_unique_patterns: "set (unique_patterns seen ps) = set ps - seen - {[]}"
  by (induction ps arbitrary: seen) auto

lemma distinct_unique_patterns: "distinct (unique_patterns seen ps)"
  by (induction ps arbitrary: seen) (auto simp: set_unique_patterns)

lemma get_stem_patterns_nonempty: "[] \<notin> set (get_stem_patterns fug k)"
  by (simp add: get_stem_patterns_def set_unique_patterns)

lemma get_stem_patterns_Cons:
  "kanji \<noteq> [] \<Longrightarrow> \<exists>rest. get_stem_patterns fug kanji = kanji # rest"
  by (simp add: get_stem_patterns_def all_patterns_def Let_def)

lemma get_stem_patterns_sqltest_Cons:
  "kanji \<noteq> [] \<Longrightarrow> \<exists>rest. get_stem_patterns_sqltest kanji = kanji # rest"
  by (simp add: get_stem_patterns_sqltest_def all_patterns_sqltest_def Let_def)

lemma clean_kanji_Nil: "clean_kanji [] = []"
  by (simp add: clean_kanji_def strip_def)

lemma verb_patterns_member:
  assumes "(ending, conjugations) \<in> set table" "endswith clean ending"
    "slice_end (length ending) clean \<noteq> []"
  shows "slice_end (length ending) clean \<in> set (verb_patterns table clean)"
    and "cj \<in> set conjugations \<Longrightarrow>
         slice_end (length ending) clean @ cj \<in> set (verb_patterns table clean)"
  using assms by (force simp: verb_patterns_def Let_def)+

text \<open>
  The search loop returns the first pattern of its list that is non-empty and occurs; the
  patterns before it do not occur, and the sentence is cut at the lowest index.
\<close>

lemma search_patterns_Some:
  assumes "search_patterns ps s = Some (b, m, a)"
  shows "\<exists>pre post i. ps = pre @ m # post \<and> (\<forall>p\<in>set pre. p = [] \<or> \<not> py_in p s) \<and>
           m \<noteq> [] \<and> str_index m s = Some i \<and> b = take i s \<and> a = drop (i + length m) s"
  using assms
proof (induction ps)
  case Nil
  then show ?case by simp
next
  case (Cons q qs)
  show ?case
  proof (cases "q \<noteq> [] \<and> py_in q s")
    case True
    then obtain i where i: "str_index q s = Some i" by (auto simp: py_in_def)
    with True Cons.prems have "m = q" "b = take i s" "a = drop (i + length q) s" by auto
    with True i have "q # qs = [] @ m # qs \<and> (\<forall>p\<in>set []. p = [] \<or> \<not> py_in p s) \<and>
           m \<noteq> [] \<and> str_index m s = Some i \<and> b = take i s \<and> a = drop (i + length m) s"
      by simp
    then show ?thesis by blast
  next
    case False
    with Cons.prems have "search_patterns qs s = Some (b, m, a)" by auto
    from Cons.IH[OF this] obtain pre post i where
      h: "qs = pre @ m # post" "\<forall>p\<in>set pre. p = [] \<or> \<not> py_in p s" "m \<noteq> []"
         "str_index m s = Some i" "b = take i s" "a = drop (i + length m) s" by blast
    from h False have "q # qs = (q # pre) @ m # post \<and> (\<forall>p\<in>set (q # pre). p = [] \<or> \<not> py_in p s) \<and>
           m \<noteq> [] \<and> str_index m s = Some i \<and> b = take i s \<and> a = drop (i + length m) s"
      by auto
    then show ?thesis by blast
  qed
qed

lemma search_patterns_None_iff:
  "search_patterns ps s = None \<longleftrightarrow> (\<forall>p\<in>set ps. p = [] \<or> \<not> py_in p s)"
  by (induction ps) (auto simp: py_in_def)

lemma search_patterns_concat:
  assumes "search_patterns ps s = Some (b, m, a)"
  shows "b @ m @ a = s"
proof -
  from search_patterns_Some[OF assms] obtain i where
    "str_index m s = Some i" "b = take i s" "a = drop (i + length m) s" by blast
  with str_index_Some_split[of m s i] show ?thesis by simp
qed

lemma search_patterns_leftmost:
  assumes "search_patterns ps s = Some (b, m, a)"
  shows "\<not> sublist m b"
proof
  assume "sublist m b"
  then obtain u v where b: "b = u @ m @ v" by (auto simp: sublist_def)
  from search_patterns_Some[OF assms] obtain i where
    i: "m \<noteq> []" "str_index m s = Some i" "b = take i s" by blast
  from search_patterns_concat[OF assms] b have s: "s = u @ m @ v @ m @ a" by simp
  have lb: "length b \<le> i" using i(3) by simp
  with b i(1) have "length u < i" by (cases m) auto
  from str_index_least[OF i(2) this] s show False by simp
qed

lemma search_patterns_first_occurrence:
  assumes "search_patterns ps s = Some (b, m, a)" "s = u @ m @ v"
  shows "length b \<le> length u"
proof (rule ccontr)
  assume "\<not> length b \<le> length u"
  then have lt: "length u < length b" by simp
  from search_patterns_Some[OF assms(1)] obtain i where
    i: "str_index m s = Some i" "b = take i s" by blast
  from i(2) have "length b \<le> i" by simp
  with lt have "length u < i" by simp
  from str_index_least[OF i(1) this] assms(2) show False by simp
qed

lemma sort_key_split_le:
  assumes "sort_key f xs = pre @ m # post" "p \<in> set post"
  shows "f m \<le> f p"
proof -
  have "sorted (map f (sort_key f xs))" by (rule sorted_sort_key)
  with assms show ?thesis by (auto simp: sorted_append)
qed

lemma search_sorted_longest:
  assumes "search_patterns (sorted_by_len_desc ps) s = Some (b, m, a)"
  shows "m \<in> set ps \<and> (\<forall>p\<in>set ps. sublist p s \<longrightarrow> length p \<le> length m)"
proof -
  from search_patterns_Some[OF assms] obtain pre post where
    h: "sorted_by_len_desc ps = pre @ m # post" "\<forall>p\<in>set pre. p = [] \<or> \<not> py_in p s" by blast
  have "set (sorted_by_len_desc ps) = set ps" by (simp add: sorted_by_len_desc_def)
  with h(1) have sets: "set ps = set pre \<union> {m} \<union> set post" by auto
  have "length p \<le> length m" if "p \<in> set ps" "sublist p s" for p
  proof -
    from that(1) sets consider "p \<in> set pre" | "p = m" | "p \<in> set post" by auto
    then show ?thesis
    proof cases
      case 1
      with h(2) that(2) show ?thesis by (auto simp: py_in_iff_sublist)
    next
      case 2
      then show ?thesis by simp
    next
      case 3
      from sort_key_split_le[OF h(1)[unfolded sorted_by_len_desc_def] 3] show ?thesis by simp
    qed
  qed
  with sets show ?thesis by auto
qed

text \<open>The guards of \<open>find_word_in_sentence\<close> let only non-empty strings through.\<close>

lemma find_word_SomeD:
  assumes "find_word_in_sentence fug kanji sentence = Some r"
  shows "truthy kanji \<and> truthy sentence \<and> \<not> isna kanji \<and> \<not> isna sentence \<and>
         search_patterns (sorted_by_len_desc (get_stem_patterns fug (strip (py_str kanji))))
           (strip (py_str sentence)) = Some r"
  using assms by (auto simp: find_word_in_sentence_def Let_def split: if_splits)

lemma find_word_guarded:
  assumes "truthy kanji" "truthy sentence" "\<not> isna kanji" "\<not> isna sentence"
  shows "find_word_in_sentence fug kanji sentence =
         search_patterns (sorted_by_len_desc (get_stem_patterns fug (strip (py_str kanji))))
           (strip (py_str sentence))"
  using assms by (simp add: find_word_in_sentence_def Let_def)

lemma find_word_sqltest_SomeD:
  assumes "find_word_in_sentence_sqltest kanji sentence = Some r"
  shows "truthy kanji \<and> truthy sentence \<and> \<not> isna kanji \<and> \<not> isna sentence \<and>
         search_patterns (sorted_by_len_desc (get_stem_patterns_sqltest (py_str kanji)))
           (py_str sentence) = Some r"
  using assms by (auto simp: find_word_in_sentence_sqltest_def Let_def split: if_splits)

lemma find_word_longest:
  assumes "find_word_in_sentence fug kanji sentence = Some (before, matched, after)"
  shows "matched \<in> set (get_stem_patterns fug (strip (py_str kanji))) \<and>
         sublist matched (strip (py_str sentence)) \<and>
         (\<forall>p\<in>set (get_stem_patterns fug (strip (py_str kanji))).
            sublist p (strip (py_str sentence)) \<longrightarrow> length p \<le> length matched)"
proof -
  from find_word_SomeD[OF assms] have
    h: "search_patterns (sorted_by_len_desc (get_stem_patterns fug (strip (py_str kanji))))
          (strip (py_str sentence)) = Some (before, matched, after)" by blast
  from search_patterns_concat[OF h]
  have "strip (py_str sentence) = before @ matched @ after" by simp
  then have "sublist matched (strip (py_str sentence))" unfolding sublist_def by blast
  with search_sorted_longest[OF h] show ?thesis by blast
qed

text \<open>The definitions that evaluate the functions on a concrete word and sentence.\<close>

lemmas eval_defs = find_word_in_sentence_def find_word_in_sentence_sqltest_def strip_def is_space_def
  get_stem_patterns_def get_stem_patterns_sqltest_def all_patterns_def all_patterns_sqltest_def
  clean_kanji_def is_marker_def verb_patterns_def verb_endings_def verb_endings_sqltest_def
  endswith_def slice_end_def i_adj_patterns_def i_adj_endings_def na_adj_patterns_def
  na_paren_patterns_def particle_patterns_def particles_def remove_char_def
  sorted_by_len_desc_def py_in_def asc_def Let_def

section \<open>The claims about \<open>find_word_in_sentence\<close>\<close>

text \<open>
  Claim C1 (split reconstruction). When \<open>find_word_in_sentence\<close> succeeds, the three
  returned fragments concatenate to the sentence it searched. In
  \<open>src/02_excel_to_sql.py\<close> that is the sentence after \<open>strip()\<close>, so the concatenation
  is the input sentence without its leading and trailing whitespace; the copy in
  \<open>src/SQL_test\<close> does not strip and gives back the input sentence itself.
\<close>

theorem split_reconstruction:
  "(find_word_in_sentence fug kanji sentence = Some (before, matched, after) \<longrightarrow>
      before @ matched @ after = strip (py_str sentence)) \<and>
   (find_word_in_sentence_sqltest kanji sentence = Some (before', matched', after') \<longrightarrow>
      before' @ matched' @ after' = py_str sentence)"
proof (intro conjI impI)
  assume "find_word_in_sentence fug kanji sentence = Some (before, matched, after)"
  from find_word_SomeD[OF this] have
    "search_patterns (sorted_by_len_desc (get_stem_patterns fug (strip (py_str kanji))))
       (strip (py_str sentence)) = Some (before, matched, after)" by blast
  then show "before @ matched @ after = strip (py_str sentence)"
    by (rule search_patterns_concat)
next
  assume "find_word_in_sentence_sqltest kanji sentence = Some (before', matched', after')"
  from find_word_sqltest_SomeD[OF this] have
    "search_patterns (sorted_by_len_desc (get_stem_patterns_sqltest (py_str kanji)))
       (py_str sentence) = Some (before', matched', after')" by blast
  then show "before' @ matched' @ after' = py_str sentence"
    by (rule search_patterns_concat)
qed

text \<open>
  The sentence \<open>" xaby "\<close> and the word \<open>"ab"\<close>: the first copy returns
  \<open>("x", "ab", "y")\<close>, the second \<open>(" x", "ab", "y ")\<close>.
\<close>

theorem split_reconstruction_witness:
  "find_word_in_sentence None (PStr (asc ''ab'')) (PStr (asc '' xaby '')) = Some (asc ''x'', asc ''ab'', asc ''y'') \<and>
   asc ''x'' @ asc ''ab'' @ asc ''y'' = strip (py_str (PStr (asc '' xaby ''))) \<and>
   find_word_in_sentence_sqltest (PStr (asc ''ab'')) (PStr (asc '' xaby '')) = Some (asc '' x'', asc ''ab'', asc ''y '') \<and>
   asc '' x'' @ asc ''ab'' @ asc ''y '' = py_str (PStr (asc '' xaby ''))"
proof -
  have e1: "find_word_in_sentence None (PStr (asc ''ab'')) (PStr (asc '' xaby ''))
              = Some (asc ''x'', asc ''ab'', asc ''y'')"
    by (simp add: eval_defs)
  have e2: "find_word_in_sentence_sqltest (PStr (asc ''ab'')) (PStr (asc '' xaby ''))
              = Some (asc '' x'', asc ''ab'', asc ''y '')"
    by (simp add: eval_defs)
  from split_reconstruction[of None "PStr (asc ''ab'')" "PStr (asc '' xaby '')" "asc ''x''" "asc ''ab''" "asc ''y''"
        "asc '' x''" "asc ''ab''" "asc ''y ''"] e1 e2
  show ?thesis by blast
qed

text \<open>
  For the input sentence \<open>" ab"\<close> and the word \<open>"ab"\<close> the fragments of the first copy
  concatenate to \<open>"ab"\<close>, which is not the input sentence.
\<close>

theorem split_reconstruction_counterexample:
  "find_word_in_sentence None (PStr (asc ''ab'')) (PStr (asc '' ab'')) = Some ([], asc ''ab'', []) \<and>
   [] @ asc ''ab'' @ [] \<noteq> asc '' ab''"
  by (simp add: eval_defs)

text \<open>
  Claim C2 (longest match). The pattern returned is one of the patterns generated for
  the stripped word, it occurs in the stripped sentence, and no generated pattern that
  occurs there is longer.
\<close>

theorem longest_match:
  assumes "find_word_in_sentence fug kanji sentence = Some (before, matched, after)"
  shows "matched \<in> set (get_stem_patterns fug (strip (py_str kanji))) \<and>
         sublist matched (strip (py_str sentence)) \<and>
         (\<forall>p\<in>set (get_stem_patterns fug (strip (py_str kanji))).
            sublist p (strip (py_str sentence)) \<longrightarrow> length p \<le> length matched)"
  using assms by (rule find_word_longest)

text \<open>
  TABERU in the sentence TABEMASEN: the match is TABEMASEN, and the stem TABE, which
  occurs as well, is shorter.
\<close>

theorem longest_match_witness:
  "find_word_in_sentence None (PStr [0x98DF, 0x3079, k_ru]) (PStr [0x98DF, 0x3079, k_ma, k_se, k_n])
     = Some ([], [0x98DF, 0x3079, k_ma, k_se, k_n], []) \<and>
   [0x98DF, 0x3079] \<in> set (get_stem_patterns None (strip [0x98DF, 0x3079, k_ru])) \<and>
   sublist [0x98DF, 0x3079] (strip [0x98DF, 0x3079, k_ma, k_se, k_n]) \<and>
   length [0x98DF, 0x3079 :: nat] \<le> length [0x98DF, 0x3079, k_ma, k_se, k_n :: nat]"
proof -
  have e1: "find_word_in_sentence None (PStr [0x98DF, 0x3079, k_ru]) (PStr [0x98DF, 0x3079, k_ma, k_se, k_n])
     = Some ([], [0x98DF, 0x3079, k_ma, k_se, k_n], [])"
    by (simp add: eval_defs)
  have e2: "[0x98DF, 0x3079] \<in> set (get_stem_patterns None (strip [0x98DF, 0x3079, k_ru]))"
    by (simp add: eval_defs)
  have e3: "sublist [0x98DF, 0x3079] (strip [0x98DF, 0x3079, k_ma, k_se, k_n])"
    by (simp add: sublist_eval eval_defs)
  from longest_match[OF e1]
  have "\<forall>p\<in>set (get_stem_patterns None (strip [0x98DF, 0x3079, k_ru])).
          sublist p (strip [0x98DF, 0x3079, k_ma, k_se, k_n])
          \<longrightarrow> length p \<le> length [0x98DF, 0x3079, k_ma, k_se, k_n :: nat]"
    by simp
  from bspec[OF this e2] e3
  have "length [0x98DF, 0x3079 :: nat] \<le> length [0x98DF, 0x3079, k_ma, k_se, k_n :: nat]"
    by (rule mp)
  with e1 e2 e3 show ?thesis by (intro conjI)
qed

text \<open>
  Read on the unstripped input the statement fails: for the word \<open>" a"\<close> and the
  sentence \<open>"x a"\<close> the match is \<open>"a"\<close>, although \<open>get_stem_patterns(" a")\<close> contains the
  longer \<open>" a"\<close>, which occurs in the sentence.
\<close>

theorem longest_match_counterexample:
  "find_word_in_sentence None (PStr (asc '' a'')) (PStr (asc ''x a'')) = Some (asc ''x '', asc ''a'', []) \<and>
   asc '' a'' \<in> set (get_stem_patterns None (asc '' a'')) \<and>
   sublist (asc '' a'') (asc ''x a'') \<and>
   length (asc ''a'') < length (asc '' a'')"
  by (simp add: sublist_eval eval_defs)

text \<open>
  Claim C4 (success iff a pattern occurs). The function returns a triple exactly when
  both arguments are true values (not \<open>None\<close>, not the empty string, not a zero) other
  than NaN and a pattern generated for the stripped string form of the word occurs in the
  stripped string form of the sentence; otherwise it returns \<open>(None, None, None)\<close>. The
  arguments need not be strings: \<open>str()\<close> is applied to both.
\<close>

theorem success_iff_pattern_occurs:
  "(find_word_in_sentence fug kanji sentence \<noteq> None) =
   (truthy kanji \<and> truthy sentence \<and> \<not> isna kanji \<and> \<not> isna sentence \<and>
      (\<exists>p\<in>set (get_stem_patterns fug (strip (py_str kanji))).
         sublist p (strip (py_str sentence))))"
proof
  assume "find_word_in_sentence fug kanji sentence \<noteq> None"
  then obtain r where r: "find_word_in_sentence fug kanji sentence = Some r" by auto
  obtain b m a where bma: "r = (b, m, a)" by (cases r)
  from find_word_SomeD[OF r] find_word_longest[OF r[unfolded bma]]
  show "truthy kanji \<and> truthy sentence \<and> \<not> isna kanji \<and> \<not> isna sentence \<and>
      (\<exists>p\<in>set (get_stem_patterns fug (strip (py_str kanji))).
         sublist p (strip (py_str sentence)))"
    by blast
next
  assume a: "truthy kanji \<and> truthy sentence \<and> \<not> isna kanji \<and> \<not> isna sentence \<and>
      (\<exists>p\<in>set (get_stem_patterns fug (strip (py_str kanji))).
         sublist p (strip (py_str sentence)))"
  then obtain p where
    p: "p \<in> set (get_stem_patterns fug (strip (py_str kanji)))"
       "sublist p (strip (py_str sentence))" by blast
  from p(1) get_stem_patterns_nonempty[of fug "strip (py_str kanji)"] have "p \<noteq> []" by auto
  with p have "\<not> (\<forall>p\<in>set (sorted_by_len_desc (get_stem_patterns fug (strip (py_str kanji)))).
                        p = [] \<or> \<not> py_in p (strip (py_str sentence)))"
    by (auto simp: sorted_by_len_desc_def py_in_iff_sublist)
  then have "search_patterns (sorted_by_len_desc (get_stem_patterns fug (strip (py_str kanji))))
               (strip (py_str sentence)) \<noteq> None"
    by (simp only: search_patterns_None_iff not_False_eq_True)
  with a show "find_word_in_sentence fug kanji sentence \<noteq> None"
    by (simp add: find_word_guarded)
qed

text \<open>
  A word found, a word not found, an empty word, and two numeric sentences: for the word
  \<open>"12"\<close> and the number 12.5 the function returns \<open>("", "12", ".5")\<close>, and for the number
  0, which is false, it returns nothing.
\<close>

theorem success_iff_pattern_occurs_witness:
  "find_word_in_sentence None (PStr (asc ''ab'')) (PStr (asc '' xaby '')) \<noteq> None \<and>
   (\<exists>p\<in>set (get_stem_patterns None (strip (asc ''ab''))). sublist p (strip (asc '' xaby ''))) \<and>
   find_word_in_sentence None (PStr (asc ''12'')) (PNum True (asc ''12.5''))
     = Some ([], asc ''12'', asc ''.5'') \<and>
   (\<exists>p\<in>set (get_stem_patterns None (strip (asc ''12''))). sublist p (strip (asc ''12.5''))) \<and>
   find_word_in_sentence None (PStr (asc ''0'')) (PNum False (asc ''0'')) = None"
proof -
  have e1: "find_word_in_sentence None (PStr (asc ''ab'')) (PStr (asc '' xaby '')) \<noteq> None"
    by (simp add: eval_defs)
  have e2: "find_word_in_sentence None (PStr (asc ''12'')) (PNum True (asc ''12.5''))
              = Some ([], asc ''12'', asc ''.5'')"
    by (simp add: eval_defs)
  then have e2': "find_word_in_sentence None (PStr (asc ''12'')) (PNum True (asc ''12.5'')) \<noteq> None"
    by simp
  have e3: "find_word_in_sentence None (PStr (asc ''0'')) (PNum False (asc ''0'')) = None"
    by (simp add: find_word_in_sentence_def)
  from iffD1[OF success_iff_pattern_occurs e1]
  have w1: "\<exists>p\<in>set (get_stem_patterns None (strip (asc ''ab''))). sublist p (strip (asc '' xaby ''))"
    by simp
  from iffD1[OF success_iff_pattern_occurs e2']
  have w2: "\<exists>p\<in>set (get_stem_patterns None (strip (asc ''12''))). sublist p (strip (asc ''12.5''))"
    by simp
  from e1 w1 e2 w2 e3 show ?thesis by (intro conjI)
qed

text \<open>
  Read on the unstripped input the equivalence fails: for the word \<open>" a*b"\<close> and the
  sentence \<open>"a*b"\<close> the function succeeds (the stripped word occurs), but no pattern of
  \<open>get_stem_patterns(" a*b")\<close>, which are \<open>" a*b"\<close> and \<open>"ab"\<close>, occurs in the sentence.
\<close>

theorem success_iff_pattern_occurs_counterexample:
  "find_word_in_sentence None (PStr (asc '' a*b'')) (PStr (asc ''a*b'')) = Some ([], asc ''a*b'', []) \<and>
   asc '' a*b'' \<noteq> [] \<and> asc ''a*b'' \<noteq> [] \<and>
   \<not> (\<exists>p\<in>set (get_stem_patterns None (asc '' a*b'')). sublist p (asc ''a*b''))"
  by (simp add: sublist_eval eval_defs)

text \<open>
  Claim C8 (leftmost split). The matched pattern does not occur inside the fragment
  before it, and every occurrence of it in the searched sentence starts at or after the
  point of the split.
\<close>

theorem leftmost_split:
  assumes "find_word_in_sentence fug kanji sentence = Some (before, matched, after)"
  shows "\<not> sublist matched before \<and>
         (\<forall>u v. strip (py_str sentence) = u @ matched @ v \<longrightarrow> length before \<le> length u)"
proof -
  from find_word_SomeD[OF assms] have
    h: "search_patterns (sorted_by_len_desc (get_stem_patterns fug (strip (py_str kanji))))
          (strip (py_str sentence)) = Some (before, matched, after)" by blast
  from search_patterns_leftmost[OF h] search_patterns_first_occurrence[OF h]
  show ?thesis by blast
qed

theorem leftmost_split_witness:
  "find_word_in_sentence None (PStr (asc ''ab'')) (PStr (asc ''xabab'')) = Some (asc ''x'', asc ''ab'', asc ''ab'') \<and>
   \<not> sublist (asc ''ab'') (asc ''x'')"
proof -
  have e1: "find_word_in_sentence None (PStr (asc ''ab'')) (PStr (asc ''xabab''))
              = Some (asc ''x'', asc ''ab'', asc ''ab'')"
    by (simp add: eval_defs)
  from leftmost_split[OF e1] e1 show ?thesis by blast
qed

section \<open>The two copies of \<open>find_word_in_sentence\<close>\<close>

text \<open>
  The search only depends on the patterns that occur in the sentence: patterns that do
  not occur can be dropped before the duplicates are removed and the list is sorted.
\<close>

lemma search_patterns_filter:
  "search_patterns ps s = search_patterns (filter (\<lambda>p. p \<noteq> [] \<and> py_in p s) ps) s"
  by (induction ps) (auto simp: py_in_def)

lemma unique_patterns_insert_absent:
  "x \<notin> set ys \<Longrightarrow> unique_patterns (insert x seen) ys = unique_patterns seen ys"
proof (induction ys arbitrary: seen)
  case Nil
  show ?case by simp
next
  case (Cons y ys)
  then have "x \<noteq> y" "x \<notin> set ys" by auto
  with Cons.IH[of "insert y seen"] Cons.IH[of seen] show ?case
    by (simp add: insert_commute)
qed

lemma filter_unique_patterns:
  "filter P (unique_patterns seen xs) = unique_patterns seen (filter P xs)"
proof (induction xs arbitrary: seen)
  case Nil
  show ?case by simp
next
  case (Cons x xs)
  show ?case
  proof (cases "P x")
    case True
    with Cons.IH show ?thesis by simp
  next
    case False
    then have "x \<notin> set (filter P xs)" by simp
    from unique_patterns_insert_absent[OF this] Cons.IH False show ?thesis by simp
  qed
qed

lemma search_sorted_unique_cong:
  assumes "filter (\<lambda>p. p \<noteq> [] \<and> py_in p s) A = filter (\<lambda>p. p \<noteq> [] \<and> py_in p s) B"
  shows "search_patterns (sorted_by_len_desc (unique_patterns {} A)) s
       = search_patterns (sorted_by_len_desc (unique_patterns {} B)) s"
proof -
  let ?P = "\<lambda>p. p \<noteq> [] \<and> py_in p s"
  have norm: "filter ?P (sorted_by_len_desc (unique_patterns {} X))
        = sorted_by_len_desc (unique_patterns {} (filter ?P X))" for X
    by (simp only: sorted_by_len_desc_def filter_sort filter_unique_patterns)
  have "search_patterns (sorted_by_len_desc (unique_patterns {} A)) s
      = search_patterns (sorted_by_len_desc (unique_patterns {} (filter ?P A))) s"
    by (subst search_patterns_filter) (simp only: norm)
  also have "\<dots> = search_patterns (sorted_by_len_desc (unique_patterns {} (filter ?P B))) s"
    by (simp only: assms)
  also have "\<dots> = search_patterns (sorted_by_len_desc (unique_patterns {} B)) s"
    by (subst (2) search_patterns_filter) (simp only: norm)
  finally show ?thesis .
qed

text \<open>The two tables differ in one entry: the suffix MASEN of the ending RU.\<close>

lemma verb_tables_differ:
  "\<exists>L R. verb_endings_sqltest = ([k_ru], L) # R \<and>
         verb_endings = ([k_ru], L @ [[k_ma, k_se, k_n]]) # R"
  by (simp add: verb_endings_def verb_endings_sqltest_def)

lemma filter_verb_patterns_agree:
  assumes "\<not> (endswith clean [k_ru] \<and> P (butlast clean @ [k_ma, k_se, k_n]))"
  shows "filter P (verb_patterns verb_endings clean)
       = filter P (verb_patterns verb_endings_sqltest clean)"
proof -
  from verb_tables_differ obtain L R where
    t: "verb_endings_sqltest = ([k_ru], L) # R"
       "verb_endings = ([k_ru], L @ [[k_ma, k_se, k_n]]) # R" by blast
  have stem: "slice_end (length [k_ru]) clean = butlast clean"
    by (simp add: slice_end_def butlast_conv_take)
  show ?thesis
    using assms unfolding t verb_patterns_def
    by (simp only: list.map concat.simps filter_append prod.case stem Let_def split: if_split)
       auto
qed

text \<open>
  Claim C5 (the copies agree). The copy in \<open>src/02_excel_to_sql.py\<close>, without fugashi,
  and the copy in \<open>src/SQL_test\<close> return the same result for every word and sentence
  that have no leading or trailing whitespace, unless the cleaned word ends in RU and
  its stem followed by MASEN occurs in the sentence.
\<close>

theorem copies_agree:
  assumes "strip (py_str kanji) = py_str kanji"
    and "strip (py_str sentence) = py_str sentence"
    and "\<not> (endswith (clean_kanji (py_str kanji)) [k_ru] \<and>
            sublist (butlast (clean_kanji (py_str kanji)) @ [k_ma, k_se, k_n]) (py_str sentence))"
  shows "find_word_in_sentence None kanji sentence = find_word_in_sentence_sqltest kanji sentence"
proof (cases "\<not> truthy sentence \<or> \<not> truthy kanji \<or> isna sentence \<or> isna kanji")
  case True
  then show ?thesis
    by (auto simp: find_word_in_sentence_def find_word_in_sentence_sqltest_def)
next
  case False
  let ?k = "py_str kanji" and ?s = "py_str sentence"
  let ?P = "\<lambda>p. p \<noteq> [] \<and> py_in p ?s"
  from assms(3) have "\<not> (endswith (clean_kanji ?k) [k_ru] \<and>
                        ?P (butlast (clean_kanji ?k) @ [k_ma, k_se, k_n]))"
    by (simp add: py_in_iff_sublist)
  from filter_verb_patterns_agree[of "clean_kanji ?k" ?P, OF this]
  have vp: "filter ?P (verb_patterns verb_endings (clean_kanji ?k))
          = filter ?P (verb_patterns verb_endings_sqltest (clean_kanji ?k))" .
  define pre where "pre = [?k] @ (if clean_kanji ?k \<noteq> ?k then [clean_kanji ?k] else [])"
  define post where "post = i_adj_patterns (clean_kanji ?k) @ na_adj_patterns (clean_kanji ?k)
       @ na_paren_patterns (clean_kanji ?k) @ particle_patterns (clean_kanji ?k)"
  have a: "all_patterns None ?k = pre @ verb_patterns verb_endings (clean_kanji ?k) @ post"
    by (simp add: all_patterns_def Let_def pre_def post_def)
  have b: "all_patterns_sqltest ?k = pre @ verb_patterns verb_endings_sqltest (clean_kanji ?k) @ post"
    by (simp add: all_patterns_sqltest_def Let_def pre_def post_def)
  have "filter ?P (all_patterns None ?k) = filter ?P (all_patterns_sqltest ?k)"
    by (simp only: a b filter_append vp)
  from search_sorted_unique_cong[OF this] False assms(1,2) show ?thesis
    by (simp add: find_word_in_sentence_def find_word_in_sentence_sqltest_def Let_def
          get_stem_patterns_def get_stem_patterns_sqltest_def)
qed

text \<open>TABERU in the sentence TABEMASITA: both copies match the stem TABE.\<close>

theorem copies_agree_witness:
  "strip (py_str (PStr [0x98DF, 0x3079, k_ru])) = py_str (PStr [0x98DF, 0x3079, k_ru]) \<and>
   strip (py_str (PStr [0x98DF, 0x3079, k_ma, k_si, k_ta])) = py_str (PStr [0x98DF, 0x3079, k_ma, k_si, k_ta]) \<and>
   endswith (clean_kanji [0x98DF, 0x3079, k_ru]) [k_ru] \<and>
   \<not> sublist (butlast (clean_kanji [0x98DF, 0x3079, k_ru]) @ [k_ma, k_se, k_n]) [0x98DF, 0x3079, k_ma, k_si, k_ta] \<and>
   find_word_in_sentence None (PStr [0x98DF, 0x3079, k_ru]) (PStr [0x98DF, 0x3079, k_ma, k_si, k_ta])
     = Some ([], [0x98DF, 0x3079], [k_ma, k_si, k_ta]) \<and>
   find_word_in_sentence_sqltest (PStr [0x98DF, 0x3079, k_ru]) (PStr [0x98DF, 0x3079, k_ma, k_si, k_ta])
     = Some ([], [0x98DF, 0x3079], [k_ma, k_si, k_ta])"
proof -
  let ?k = "PStr [0x98DF, 0x3079, k_ru]" and ?s = "PStr [0x98DF, 0x3079, k_ma, k_si, k_ta]"
  have h1: "strip (py_str ?k) = py_str ?k" by (simp add: strip_def is_space_def)
  have h2: "strip (py_str ?s) = py_str ?s" by (simp add: strip_def is_space_def)
  have cl: "clean_kanji [0x98DF, 0x3079, k_ru] = [0x98DF, 0x3079, k_ru]"
    by (simp add: clean_kanji_def strip_def is_space_def is_marker_def)
  have h3: "endswith (clean_kanji [0x98DF, 0x3079, k_ru]) [k_ru]" by (simp add: cl endswith_def)
  have h4: "\<not> sublist (butlast (clean_kanji [0x98DF, 0x3079, k_ru]) @ [k_ma, k_se, k_n])
              [0x98DF, 0x3079, k_ma, k_si, k_ta]"
    by (simp add: cl sublist_eval py_in_def)
  then have h5: "\<not> (endswith (clean_kanji (py_str ?k)) [k_ru] \<and>
            sublist (butlast (clean_kanji (py_str ?k)) @ [k_ma, k_se, k_n]) (py_str ?s))"
    by simp
  have e: "find_word_in_sentence_sqltest ?k ?s = Some ([], [0x98DF, 0x3079], [k_ma, k_si, k_ta])"
    by (simp add: eval_defs)
  from copies_agree[OF h1 h2 h5] e h1 h2 h3 h4 show ?thesis by simp
qed

text \<open>
  The copies differ on TABERU in the sentence TABEMASEN (the first matches TABEMASEN, the
  second the stem TABE), and on the word \<open>"ab"\<close> in the sentence \<open>" ab"\<close> (the first
  strips the sentence, the second keeps the space in the fragment before the match).
\<close>

theorem copies_agree_counterexample:
  "find_word_in_sentence None (PStr [0x98DF, 0x3079, k_ru]) (PStr [0x98DF, 0x3079, k_ma, k_se, k_n])
     = Some ([], [0x98DF, 0x3079, k_ma, k_se, k_n], []) \<and>
   find_word_in_sentence_sqltest (PStr [0x98DF, 0x3079, k_ru]) (PStr [0x98DF, 0x3079, k_ma, k_se, k_n])
     = Some ([], [0x98DF, 0x3079], [k_ma, k_se, k_n]) \<and>
   find_word_in_sentence None (PStr (asc ''ab'')) (PStr (asc '' ab'')) = Some ([], asc ''ab'', []) \<and>
   find_word_in_sentence_sqltest (PStr (asc ''ab'')) (PStr (asc '' ab''))
     = Some (asc '' '', asc ''ab'', [])"
  by (simp add: eval_defs)

section \<open>The claims about \<open>get_stem_patterns\<close>\<close>

text \<open>
  Claim C10 (pattern-list invariant). For a non-empty word the list that
  \<open>get_stem_patterns\<close> returns has pairwise distinct elements, does not contain the empty
  string, and starts with the word itself; in both copies, and whatever fugashi returns.
\<close>

theorem pattern_list_invariant:
  assumes "kanji \<noteq> []"
  shows "distinct (get_stem_patterns fug kanji) \<and> [] \<notin> set (get_stem_patterns fug kanji) \<and>
         (\<exists>rest. get_stem_patterns fug kanji = kanji # rest) \<and>
         distinct (get_stem_patterns_sqltest kanji) \<and> [] \<notin> set (get_stem_patterns_sqltest kanji) \<and>
         (\<exists>rest. get_stem_patterns_sqltest kanji = kanji # rest)"
  using assms get_stem_patterns_Cons[of kanji fug] get_stem_patterns_sqltest_Cons[of kanji]
  by (simp add: get_stem_patterns_def get_stem_patterns_sqltest_def distinct_unique_patterns
        set_unique_patterns)

theorem pattern_list_invariant_witness:
  "[0x98DF, 0x3079, k_ru] \<noteq> ([] :: ustr) \<and>
   distinct (get_stem_patterns None [0x98DF, 0x3079, k_ru]) \<and>
   [] \<notin> set (get_stem_patterns None [0x98DF, 0x3079, k_ru]) \<and>
   hd (get_stem_patterns None [0x98DF, 0x3079, k_ru]) = [0x98DF, 0x3079, k_ru] \<and>
   hd (get_stem_patterns_sqltest [0x98DF, 0x3079, k_ru]) = [0x98DF, 0x3079, k_ru]"
proof -
  have ne: "[0x98DF, 0x3079, k_ru] \<noteq> ([] :: ustr)" by simp
  from pattern_list_invariant[OF ne, of None] ne show ?thesis by auto
qed

text \<open>
  Claim C7 (suffix-table pattern generation). When the cleaned word ends in one of the
  nine verb endings and the stem before the ending is non-empty, the returned list
  contains the stem followed by every conjugation suffix the table has for that ending,
  the stem itself and the word as it was given.
\<close>

theorem verb_suffix_patterns:
  assumes "e \<in> {k_ru, k_u, k_ku, k_gu, k_su, k_tu, k_nu, k_bu, k_mu}"
    and "endswith (clean_kanji kanji) [e]"
    and "butlast (clean_kanji kanji) \<noteq> []"
  shows "\<exists>conjugations. map_of verb_endings [e] = Some conjugations \<and>
           (\<forall>cj\<in>set conjugations.
              butlast (clean_kanji kanji) @ cj \<in> set (get_stem_patterns fug kanji)) \<and>
           butlast (clean_kanji kanji) \<in> set (get_stem_patterns fug kanji) \<and>
           kanji \<in> set (get_stem_patterns fug kanji)"
proof -
  let ?clean = "clean_kanji kanji"
  let ?stem = "butlast ?clean"
  from assms(1) obtain conjugations where c: "map_of verb_endings [e] = Some conjugations"
    by (auto simp: verb_endings_def)
  then have mem: "([e], conjugations) \<in> set verb_endings" by (rule map_of_SomeD)
  have stem: "slice_end (length [e]) ?clean = ?stem"
    by (simp add: slice_end_def butlast_conv_take)
  from assms(3) have kanji: "kanji \<noteq> []" using clean_kanji_Nil by auto
  have sub: "set (verb_patterns verb_endings ?clean) \<subseteq> set (all_patterns fug kanji)"
    by (auto simp: all_patterns_def Let_def)
  from verb_patterns_member(1)[OF mem assms(2)] assms(3) stem
  have s1: "?stem \<in> set (verb_patterns verb_endings ?clean)" by simp
  have s2: "?stem @ cj \<in> set (verb_patterns verb_endings ?clean)"
    if "cj \<in> set conjugations" for cj
    using verb_patterns_member(2)[OF mem assms(2) _ that] assms(3) stem by simp
  have k: "kanji \<in> set (all_patterns fug kanji)" by (simp add: all_patterns_def Let_def)
  from s1 s2 sub k kanji assms(3) c show ?thesis
    by (auto simp: get_stem_patterns_def set_unique_patterns)
qed

text \<open>The word TABERU with a fullwidth asterisk in front, and the suffix MASEN.\<close>

theorem verb_suffix_patterns_witness:
  "k_ru \<in> {k_ru, k_u, k_ku, k_gu, k_su, k_tu, k_nu, k_bu, k_mu :: nat} \<and>
   endswith (clean_kanji [0xFF0A, 0x98DF, 0x3079, k_ru]) [k_ru] \<and>
   butlast (clean_kanji [0xFF0A, 0x98DF, 0x3079, k_ru]) = [0x98DF, 0x3079] \<and>
   [0x98DF, 0x3079, k_ma, k_se, k_n] \<in> set (get_stem_patterns None [0xFF0A, 0x98DF, 0x3079, k_ru]) \<and>
   [0x98DF, 0x3079] \<in> set (get_stem_patterns None [0xFF0A, 0x98DF, 0x3079, k_ru]) \<and>
   [0xFF0A, 0x98DF, 0x3079, k_ru] \<in> set (get_stem_patterns None [0xFF0A, 0x98DF, 0x3079, k_ru])"
proof -
  let ?k = "[0xFF0A, 0x98DF, 0x3079, k_ru] :: ustr"
  have h1: "k_ru \<in> {k_ru, k_u, k_ku, k_gu, k_su, k_tu, k_nu, k_bu, k_mu :: nat}" by simp
  have cl: "clean_kanji ?k = [0x98DF, 0x3079, k_ru]"
    by (simp add: clean_kanji_def strip_def is_space_def is_marker_def)
  have h2: "endswith (clean_kanji ?k) [k_ru]" by (simp add: cl endswith_def)
  have h3: "butlast (clean_kanji ?k) = [0x98DF, 0x3079]" by (simp add: cl)
  then have h3': "butlast (clean_kanji ?k) \<noteq> []" by simp
  have m: "[k_ma, k_se, k_n] \<in> set (the (map_of verb_endings [k_ru]))"
    by (simp add: verb_endings_def)
  from verb_suffix_patterns[OF h1 h2 h3', of None] m h3
  have "[0x98DF, 0x3079] @ [k_ma, k_se, k_n] \<in> set (get_stem_patterns None ?k) \<and>
        [0x98DF, 0x3079] \<in> set (get_stem_patterns None ?k) \<and>
        ?k \<in> set (get_stem_patterns None ?k)"
    by auto
  with h1 h2 h3 show ?thesis by simp
qed

section \<open>The variant with conjugation suffixes\<close>

text \<open>
  Every guarded append keeps three facts about the list \<open>patterns\<close>: its patterns are
  pairwise distinct, the entries it started with are still there, and every entry
  satisfies a property \<open>Q\<close> that the appended entries satisfy.
\<close>

lemma foldl_invariant:
  assumes "P a" "\<And>b x. x \<in> set xs \<Longrightarrow> P b \<Longrightarrow> P (f b x)"
  shows "P (foldl f a xs)"
  using assms by (induction xs arbitrary: a) auto














text \<open>
  The appends only add entries, and a form of a table whose pattern is not yet in the
  list is added with the display suffix of its table entry.
\<close>

lemma add_form_subset: "set pats \<subseteq> set (add_form pats entry)"
  by (auto simp: add_form_def)

lemma add_if_absent_subset: "set pats \<subseteq> set (add_if_absent pats entry)"
  by (auto simp: add_if_absent_def)

lemma foldl_subset:
  assumes "\<And>b x. set b \<subseteq> set (f b x)"
  shows "set a \<subseteq> set (foldl f a xs)"
  by (rule foldl_invariant[where P = "\<lambda>b. set a \<subseteq> set b"]) (use assms in blast)+

lemma add_conjugations_subset: "set pats \<subseteq> set (add_conjugations stem conj_map pats)"
  unfolding add_conjugations_def by (rule foldl_subset) (rule add_form_subset)

lemma verb_step_subset: "set pats \<subseteq> set (verb_step clean pats item)"
  using add_conjugations_subset add_if_absent_subset
  by (fastforce simp: verb_step_def Let_def)























section \<open>The claims about SQL generation\<close>

lemma quotes_paired_skip: "c \<noteq> c_quote \<Longrightarrow> quotes_paired (c # xs) = quotes_paired xs"
  by (cases xs) simp_all

lemma quotes_paired_pair: "quotes_paired (c_quote # c_quote # xs) = quotes_paired xs"
  by simp

lemma quotes_paired_double_quotes: "quotes_paired (double_quotes s)"
proof (induction s)
  case Nil
  show ?case by (simp add: double_quotes_def)
next
  case (Cons c cs)
  then have ih: "quotes_paired (double_quotes cs)" .
  show ?case
  proof (cases "c = c_quote")
    case True
    then have "double_quotes (c # cs) = c_quote # c_quote # double_quotes cs"
      by (simp add: double_quotes_def)
    with ih quotes_paired_pair[of "double_quotes cs"] show ?thesis by simp
  next
    case False
    then have "double_quotes (c # cs) = c # double_quotes cs"
      by (simp add: double_quotes_def)
    with ih quotes_paired_skip[OF False, of "double_quotes cs"] show ?thesis by simp
  qed
qed

lemma double_quotes_other:
  "filter (\<lambda>c. c \<noteq> c_quote) (double_quotes s) = filter (\<lambda>c. c \<noteq> c_quote) s"
  by (induction s) (simp_all add: double_quotes_def)

lemma double_quotes_count:
  "length (filter (\<lambda>c. c = c_quote) (double_quotes s)) = 2 * length (filter (\<lambda>c. c = c_quote) s)"
  by (induction s) (simp_all add: double_quotes_def)

text \<open>
  Claim C9 (SQL escaping). \<open>escape_sql_string\<close> returns \<open>NULL\<close> for \<open>None\<close> and for NaN.
  For a string it returns the string between two single quotes with every single quote of
  the string doubled: the text between the enclosing quotes has no unpaired single quote,
  its other characters are those of the string in their order, and it has twice as many
  single quotes as the string. A number other than NaN is written the same way from its
  string form.
\<close>

theorem escape_sql_string_quotes:
  "escape_sql_string PNone = asc ''NULL'' \<and>
   escape_sql_string PNaN = asc ''NULL'' \<and>
   escape_sql_string (PStr s) = [c_quote] @ double_quotes s @ [c_quote] \<and>
   escape_sql_string (PNum b s) = [c_quote] @ double_quotes s @ [c_quote] \<and>
   quotes_paired (double_quotes s) \<and>
   filter (\<lambda>c. c \<noteq> c_quote) (double_quotes s) = filter (\<lambda>c. c \<noteq> c_quote) s \<and>
   length (filter (\<lambda>c. c = c_quote) (double_quotes s)) = 2 * length (filter (\<lambda>c. c = c_quote) s)"
  by (simp add: escape_sql_string_def quotes_paired_double_quotes double_quotes_other
        double_quotes_count del: filter_True filter_False)

text \<open>The string \<open>it's\<close>, whose single quote is unpaired, becomes \<open>'it''s'\<close>.\<close>

theorem escape_sql_string_quotes_witness:
  "escape_sql_string (PStr [105, 116, c_quote, 115]) = [c_quote, 105, 116, c_quote, c_quote, 115, c_quote] \<and>
   quotes_paired [105, 116, c_quote, c_quote, 115] \<and> \<not> quotes_paired [105, 116, c_quote, 115]"
proof -
  have d: "double_quotes [105, 116, c_quote, 115] = [105, 116, c_quote, c_quote, 115]"
    by (simp add: double_quotes_def)
  from escape_sql_string_quotes[of "[105, 116, c_quote, 115]"] d
  have "escape_sql_string (PStr [105, 116, c_quote, 115])
          = [c_quote] @ [105, 116, c_quote, c_quote, 115] @ [c_quote] \<and>
        quotes_paired [105, 116, c_quote, c_quote, 115]"
    by simp
  then show ?thesis by simp
qed

lemma py_join_append:
  "xs \<noteq> [] \<Longrightarrow> ys \<noteq> [] \<Longrightarrow> py_join sep (xs @ ys) = py_join sep xs @ sep @ py_join sep ys"
proof (induction sep xs rule: py_join.induct)
  case (1 sep)
  then show ?case by simp
next
  case (2 sep x)
  then show ?case by (cases ys) simp_all
next
  case (3 sep x y ys')
  then show ?case by simp
qed

lemma value_tuple_shape: "\<exists>body. value_tuple v = asc ''    ('' @ body @ asc '')''"
  unfolding value_tuple_def by (metis append.assoc)

subsection \<open>Reading the tuples back\<close>

text \<open>
  Text without a single quote or a parenthesis is neutral, and so is the concatenation of
  neutral texts.
\<close>

lemma scan_neutral_plain:
  assumes "\<forall>c\<in>set xs. c \<noteq> c_quote \<and> c \<noteq> 0x28 \<and> c \<noteq> 0x29"
  shows "scan_neutral xs"
proof -
  have "foldl scan_step (depth, False, cur, tuples) xs = (depth, False, cur @ xs, tuples)"
    if "0 < depth" for depth cur tuples
    using assms that
  proof (induction xs arbitrary: cur)
    case Nil
    then show ?case by simp
  next
    case (Cons c xs)
    have "scan_step (depth, False, cur, tuples) c = (depth, False, cur @ [c], tuples)"
      using Cons.prems by simp
    then show ?case using Cons.IH[of "cur @ [c]"] Cons.prems by simp
  qed
  then show ?thesis unfolding scan_neutral_def by blast
qed

lemma scan_neutral_append:
  assumes "scan_neutral xs" and "scan_neutral ys"
  shows "scan_neutral (xs @ ys)"
  using assms unfolding scan_neutral_def by simp

text \<open>
  Inside a literal the doubled quotes of \<open>double_quotes\<close> close and reopen the literal, so
  the reader is still inside it at the end: an escaped field is neutral whatever the
  field holds.
\<close>

lemma scan_in_string:
  assumes "0 < depth"
  shows "foldl scan_step (depth, True, cur, tuples) (double_quotes s)
         = (depth, True, cur @ double_quotes s, tuples)"
  using assms
proof (induction s arbitrary: cur)
  case Nil
  then show ?case by (simp add: double_quotes_def)
next
  case (Cons c s)
  have dq: "double_quotes (c # s) = (if c = c_quote then [c_quote, c_quote] else [c]) @ double_quotes s"
    by (simp add: double_quotes_def)
  show ?case
  proof (cases "c = c_quote")
    case True
    have "foldl scan_step (depth, True, cur, tuples) [c_quote, c_quote]
          = (depth, True, cur @ [c_quote, c_quote], tuples)"
      using Cons.prems by simp
    then show ?thesis using True dq Cons.IH[of "cur @ [c_quote, c_quote]"] Cons.prems by simp
  next
    case False
    have "foldl scan_step (depth, True, cur, tuples) [c] = (depth, True, cur @ [c], tuples)"
      using Cons.prems False by simp
    then show ?thesis using False dq Cons.IH[of "cur @ [c]"] Cons.prems by simp
  qed
qed

lemma scan_neutral_literal: "scan_neutral ([c_quote] @ double_quotes s @ [c_quote])"
proof -
  have "foldl scan_step (depth, False, cur, tuples) ([c_quote] @ double_quotes s @ [c_quote])
        = (depth, False, cur @ [c_quote] @ double_quotes s @ [c_quote], tuples)"
    if d: "0 < depth" for depth cur tuples
  proof -
    have 1: "foldl scan_step (depth, False, cur, tuples) [c_quote] = (depth, True, cur @ [c_quote], tuples)"
      using d by simp
    have 2: "foldl scan_step (depth, True, cur @ [c_quote], tuples) (double_quotes s)
             = (depth, True, (cur @ [c_quote]) @ double_quotes s, tuples)"
      by (rule scan_in_string[OF d])
    have 3: "foldl scan_step (depth, True, (cur @ [c_quote]) @ double_quotes s, tuples) [c_quote]
             = (depth, False, ((cur @ [c_quote]) @ double_quotes s) @ [c_quote], tuples)"
      using d by simp
    have "foldl scan_step (depth, False, cur, tuples) ([c_quote] @ double_quotes s @ [c_quote])
          = (depth, False, ((cur @ [c_quote]) @ double_quotes s) @ [c_quote], tuples)"
      by (simp only: foldl_append 1 2 3)
    then show ?thesis by (simp only: append_assoc)
  qed
  then show ?thesis unfolding scan_neutral_def by blast
qed

lemma scan_neutral_NULL: "scan_neutral (asc ''NULL'')"
  by (rule scan_neutral_plain) (simp add: asc_def)

lemma scan_neutral_escape: "scan_neutral (escape_sql_string v)"
  unfolding escape_sql_string_def Let_def
  using scan_neutral_NULL scan_neutral_literal by simp

text \<open>The numeric fields hold digits and a minus sign, the schedule field a subquery in
  parentheses or \<open>NULL\<close>.\<close>

lemma digits_range: "\<forall>c\<in>set (digits n). 48 \<le> c \<and> c \<le> 57"
proof (induction n rule: digits.induct)
  case (1 n)
  show ?case
  proof (cases "n < 10")
    case True
    then show ?thesis by (subst digits.simps) (simp del: digits.simps)
  next
    case False
    have "n mod 10 < 10" by simp
    then have "48 + n mod 10 \<le> 57" by linarith
    then show ?thesis using 1[OF False] False
      by (subst digits.simps) (simp del: digits.simps)
  qed
qed

lemma str_int_range: "\<forall>c\<in>set (str_int i). c = 45 \<or> (48 \<le> c \<and> c \<le> 57)"
  using digits_range unfolding str_int_def by (simp del: digits.simps)

lemma scan_neutral_str_int: "scan_neutral (str_int i)"
proof (rule scan_neutral_plain, rule ballI)
  fix c assume "c \<in> set (str_int i)"
  then have "c = 45 \<or> (48 \<le> c \<and> c \<le> 57)" using str_int_range by blast
  then show "c \<noteq> c_quote \<and> c \<noteq> 0x28 \<and> c \<noteq> 0x29" by auto
qed

lemma scan_neutral_int_or_null: "scan_neutral (int_or_null x)"
  unfolding int_or_null_def
  using scan_neutral_NULL scan_neutral_str_int by (simp split: option.splits)

lemma scan_neutral_parens:
  assumes "scan_neutral xs"
  shows "scan_neutral ([0x28] @ xs @ [0x29])"
proof -
  have "foldl scan_step (depth, False, cur, tuples) ([0x28] @ xs @ [0x29])
        = (depth, False, cur @ [0x28] @ xs @ [0x29], tuples)"
    if d: "0 < depth" for depth cur tuples
  proof -
    have 1: "foldl scan_step (depth, False, cur, tuples) [0x28] = (depth + 1, False, cur @ [0x28], tuples)"
      by simp
    have 2: "foldl scan_step (depth + 1, False, cur @ [0x28], tuples) xs
             = (depth + 1, False, (cur @ [0x28]) @ xs, tuples)"
      using assms unfolding scan_neutral_def by simp
    have 3: "foldl scan_step (depth + 1, False, (cur @ [0x28]) @ xs, tuples) [0x29]
             = (depth, False, ((cur @ [0x28]) @ xs) @ [0x29], tuples)"
      using d by simp
    have "foldl scan_step (depth, False, cur, tuples) ([0x28] @ xs @ [0x29])
          = (depth, False, ((cur @ [0x28]) @ xs) @ [0x29], tuples)"
      by (simp only: foldl_append 1 2 3)
    then show ?thesis by (simp only: append_assoc)
  qed
  then show ?thesis unfolding scan_neutral_def by blast
qed

lemma scan_neutral_schedule_id: "scan_neutral (schedule_id v)"
proof -
  have p1: "scan_neutral (asc ''SELECT id FROM schedule WHERE week = '')"
    by (rule scan_neutral_plain) (simp add: asc_def)
  have p2: "scan_neutral (asc '' AND day = '')"
    by (rule scan_neutral_plain) (simp add: asc_def)
  have sel: "scan_neutral (asc ''(SELECT id FROM schedule WHERE week = '' @ str_int w
               @ asc '' AND day = '' @ str_int d @ asc '')'')" for w d
  proof -
    have "scan_neutral ([0x28] @ (asc ''SELECT id FROM schedule WHERE week = '' @ str_int w
               @ asc '' AND day = '' @ str_int d) @ [0x29])"
      by (intro scan_neutral_parens scan_neutral_append p1 p2 scan_neutral_str_int)
    moreover have "asc ''(SELECT id FROM schedule WHERE week = '' @ str_int w
               @ asc '' AND day = '' @ str_int d @ asc '')''
       = [0x28] @ (asc ''SELECT id FROM schedule WHERE week = '' @ str_int w
               @ asc '' AND day = '' @ str_int d) @ [0x29]"
      by (simp add: asc_def)
    ultimately show ?thesis by simp
  qed
  show ?thesis
    unfolding schedule_id_def
    using sel scan_neutral_NULL by (simp split: option.splits)
qed

text \<open>
  Hence the reader takes the text of one entry as one tuple, skips the separator, and
  takes the joined values as one tuple per entry.
\<close>

lemma value_tuple_body:
  "\<exists>body. value_tuple v = asc ''    '' @ [0x28] @ body @ [0x29] \<and> scan_neutral body"
proof -
  define body where "body =
     escape_sql_string (v_level v) @ asc '', '' @ int_or_null (v_ref_no v)
     @ asc '', '' @ escape_sql_string (v_kanji v) @ asc '', '' @ escape_sql_string (v_hiragana v)
     @ asc '', '' @ escape_sql_string (v_meaning_en v) @ asc '','' @ [c_newline]
     @ asc ''     '' @ escape_sql_string (v_example_before v) @ asc '', ''
     @ escape_sql_string (v_example_after v) @ asc '', '' @ escape_sql_string (v_hint v)
     @ asc '', '' @ escape_sql_string (v_full_sentence v) @ asc '','' @ [c_newline]
     @ asc ''     '' @ int_or_null (v_page_no v) @ asc '', '' @ schedule_id v @ asc '', ''
     @ escape_sql_string (v_word_type v) @ asc '', '' @ str_int (v_difficulty_level v)"
  have c1: "scan_neutral (asc '', '')" by (rule scan_neutral_plain) (simp add: asc_def)
  have c2: "scan_neutral (asc '','')" by (rule scan_neutral_plain) (simp add: asc_def)
  have c3: "scan_neutral [c_newline]" by (rule scan_neutral_plain) simp
  have c4: "scan_neutral (asc ''     '')" by (rule scan_neutral_plain) (simp add: asc_def)
  have n: "scan_neutral body"
    unfolding body_def
    by (intro scan_neutral_append scan_neutral_escape scan_neutral_int_or_null
          scan_neutral_schedule_id scan_neutral_str_int c1 c2 c3 c4)
  have "value_tuple v = asc ''    '' @ [0x28] @ body @ [0x29]"
    by (simp add: value_tuple_def body_def asc_def)
  with n show ?thesis by blast
qed

lemma scan_value_tuple:
  "foldl scan_step (0, False, [], tuples) (value_tuple v)
   = (0, False, [], tuples @ [drop 4 (value_tuple v)])"
proof -
  obtain body where vt: "value_tuple v = asc ''    '' @ [0x28] @ body @ [0x29]"
    and nb: "scan_neutral body"
    using value_tuple_body by blast
  have 0: "foldl scan_step (0, False, [], tuples) (asc ''    '') = (0, False, [], tuples)"
    by (simp add: asc_def)
  have 1: "foldl scan_step (0, False, [], tuples) [0x28] = (1, False, [0x28], tuples)"
    by simp
  have 2: "foldl scan_step (1, False, [0x28], tuples) body = (1, False, [0x28] @ body, tuples)"
    using nb unfolding scan_neutral_def by simp
  have 3: "foldl scan_step (1, False, [0x28] @ body, tuples) [0x29]
           = (0, False, [], tuples @ [([0x28] @ body) @ [0x29]])"
    by simp
  have d: "drop 4 (value_tuple v) = [0x28] @ body @ [0x29]"
    by (simp add: vt asc_def)
  have "foldl scan_step (0, False, [], tuples) (asc ''    '' @ [0x28] @ body @ [0x29])
        = (0, False, [], tuples @ [([0x28] @ body) @ [0x29]])"
    by (simp only: foldl_append 0 1 2 3)
  then have "foldl scan_step (0, False, [], tuples) (value_tuple v)
        = (0, False, [], tuples @ [[0x28] @ body @ [0x29]])"
    by (simp only: vt append_assoc)
  then show ?thesis by (simp only: d)
qed

lemma scan_separator:
  "foldl scan_step (0, False, [], tuples) (asc '','' @ [c_newline]) = (0, False, [], tuples)"
  by (simp add: asc_def)

lemma scan_join:
  "foldl scan_step (0, False, [], tuples) (py_join (asc '','' @ [c_newline]) (map value_tuple vs))
   = (0, False, [], tuples @ map (\<lambda>v. drop 4 (value_tuple v)) vs)"
proof -
  define sep where "sep = asc '','' @ [c_newline]"
  have s: "foldl scan_step (0, False, [], ts) sep = (0, False, [], ts)" for ts
    unfolding sep_def by (rule scan_separator)
  have "foldl scan_step (0, False, [], tuples) (py_join sep (map value_tuple vs))
        = (0, False, [], tuples @ map (\<lambda>v. drop 4 (value_tuple v)) vs)"
  proof (induction vs arbitrary: tuples)
    case Nil
    then show ?case by simp
  next
    case (Cons v vs)
    show ?case
    proof (cases vs)
      case Nil
      then show ?thesis by (simp add: scan_value_tuple)
    next
      case c: (Cons w ws)
      have j: "py_join sep (map value_tuple (v # vs))
               = value_tuple v @ sep @ py_join sep (map value_tuple vs)"
        using c by simp
      have "foldl scan_step (0, False, [], tuples) (py_join sep (map value_tuple (v # vs)))
            = (0, False, [], (tuples @ [drop 4 (value_tuple v)]) @ map (\<lambda>v. drop 4 (value_tuple v)) vs)"
        by (simp only: j foldl_append scan_value_tuple s Cons.IH)
      then show ?thesis by simp
    qed
  qed
  then show ?thesis unfolding sep_def .
qed

lemma scan_header:
  "foldl scan_step (0, False, [], []) (py_join [c_newline] sql_header_lines @ [c_newline])
   = (0, False, [],
      [asc ''(N1 + N2 + N3)'',
       [0x28, c_newline] @ asc ''    level, ref_no, kanji, hiragana, meaning_en,'' @ [c_newline]
       @ asc ''    example_before, example_after, hint, full_sentence,'' @ [c_newline]
       @ asc ''    page_no, schedule_id, word_type, difficulty_level'' @ [c_newline, 0x29]])"
  by (simp add: sql_header_lines_def asc_def)

lemma scan_footer:
  "foldl scan_step (0, False, [], tuples) ([c_newline] @ py_join [c_newline] sql_footer_lines)
   = (0, False, [], tuples @ [[0x28, 0x2A, 0x29], [0x28, 0x2A, 0x29]])"
  by (simp add: sql_footer_lines_def asc_def)

text \<open>
  Claim C6 (single-pass SQL formatting). The text that \<open>generate_sql\<close> returns is the
  sixteen header lines, then the value tuples of the entries joined by a comma and a
  newline, one per entry and in the order of the list, then the footer lines. Each tuple
  starts with four spaces and an opening parenthesis and ends with a closing parenthesis.
  Read back as SQL, whatever the fields hold, the joined values are exactly one
  parenthesised tuple per entry, in the order of the entries, each the text produced for
  its entry without the four spaces, and the reader ends outside every parenthesis and
  literal; this holds from any point between tuples, with the tuples \<open>ts\<close> read before.
  The whole text reads as the parenthesis of the header's comment line (the reader does
  not know comments), the column list of the \<open>INSERT\<close> statement, the tuples of the
  entries, and the two parenthesised stars of the footer's queries. The header holds
  \<open>BEGIN;\<close> and, as its last lines, the only \<open>INSERT\<close> statement up to \<open>) VALUES\<close>; the
  footer starts with the semicolon that ends the statement and holds \<open>COMMIT;\<close>.
\<close>

theorem generate_sql_single_insert:
  "generate_sql vs =
     py_join [c_newline] sql_header_lines @ [c_newline]
     @ py_join (asc '','' @ [c_newline]) (map value_tuple vs)
     @ [c_newline] @ py_join [c_newline] sql_footer_lines \<and>
   length (map value_tuple vs) = length vs \<and>
   (\<forall>i<length vs. \<exists>body. map value_tuple vs ! i = asc ''    ('' @ body @ asc '')'' \<and>
                             map value_tuple vs ! i = value_tuple (vs ! i)) \<and>
   foldl scan_step (0, False, [], ts) (py_join (asc '','' @ [c_newline]) (map value_tuple vs))
     = (0, False, [], ts @ map (\<lambda>v. drop 4 (value_tuple v)) vs) \<and>
   sql_tuples (py_join (asc '','' @ [c_newline]) (map value_tuple vs))
     = map (\<lambda>v. drop 4 (value_tuple v)) vs \<and>
   sql_scan (generate_sql vs)
     = (0, False, [],
        [asc ''(N1 + N2 + N3)'',
         [0x28, c_newline] @ asc ''    level, ref_no, kanji, hiragana, meaning_en,'' @ [c_newline]
         @ asc ''    example_before, example_after, hint, full_sentence,'' @ [c_newline]
         @ asc ''    page_no, schedule_id, word_type, difficulty_level'' @ [c_newline, 0x29]]
        @ map (\<lambda>v. drop 4 (value_tuple v)) vs
        @ [[0x28, 0x2A, 0x29], [0x28, 0x2A, 0x29]]) \<and>
   length (sql_tuples (generate_sql vs)) = length vs + 4 \<and>
   sql_header_lines ! 8 = asc ''BEGIN;'' \<and>
   sql_header_lines ! 11 = asc ''INSERT INTO vocabulary ('' \<and>
   sql_header_lines ! 15 = asc '') VALUES'' \<and> length sql_header_lines = 16 \<and>
   sql_footer_lines ! 0 = asc '';'' \<and> sql_footer_lines ! 2 = asc ''COMMIT;'' \<and>
   filter (prefix (asc ''INSERT'')) (sql_header_lines @ sql_footer_lines)
     = [asc ''INSERT INTO vocabulary ('']"
proof -
  define hd_text where "hd_text = py_join [c_newline] sql_header_lines @ [c_newline]"
  define vals where "vals = py_join (asc '','' @ [c_newline]) (map value_tuple vs)"
  define ft_text where "ft_text = [c_newline] @ py_join [c_newline] sql_footer_lines"
  define groups :: "ustr list" where "groups =
        [asc ''(N1 + N2 + N3)'',
         [0x28, c_newline] @ asc ''    level, ref_no, kanji, hiragana, meaning_en,'' @ [c_newline]
         @ asc ''    example_before, example_after, hint, full_sentence,'' @ [c_newline]
         @ asc ''    page_no, schedule_id, word_type, difficulty_level'' @ [c_newline, 0x29]]"
  have h: "sql_header_lines \<noteq> []" and f: "sql_footer_lines \<noteq> []"
    by (simp_all add: sql_header_lines_def sql_footer_lines_def)
  have "generate_sql vs =
     py_join [c_newline] (sql_header_lines @ ([py_join (asc '','' @ [c_newline]) (map value_tuple vs)]
        @ sql_footer_lines))"
    by (simp add: generate_sql_def Let_def)
  also have "\<dots> = py_join [c_newline] sql_header_lines @ [c_newline]
     @ py_join [c_newline] ([py_join (asc '','' @ [c_newline]) (map value_tuple vs)] @ sql_footer_lines)"
    using h by (simp add: py_join_append)
  also have "py_join [c_newline] ([py_join (asc '','' @ [c_newline]) (map value_tuple vs)] @ sql_footer_lines)
     = py_join (asc '','' @ [c_newline]) (map value_tuple vs) @ [c_newline] @ py_join [c_newline] sql_footer_lines"
    using f by (subst py_join_append) simp_all
  finally have eq: "generate_sql vs =
     py_join [c_newline] sql_header_lines @ [c_newline]
     @ py_join (asc '','' @ [c_newline]) (map value_tuple vs)
     @ [c_newline] @ py_join [c_newline] sql_footer_lines" by simp
  have rows: "\<forall>i<length vs. \<exists>body. map value_tuple vs ! i = asc ''    ('' @ body @ asc '')'' \<and>
                             map value_tuple vs ! i = value_tuple (vs ! i)"
    using value_tuple_shape by simp
  have sj: "foldl scan_step (0, False, [], us) vals
              = (0, False, [], us @ map (\<lambda>v. drop 4 (value_tuple v)) vs)" for us
    unfolding vals_def by (rule scan_join)
  have st: "sql_tuples vals = map (\<lambda>v. drop 4 (value_tuple v)) vs"
    by (simp add: sql_tuples_def sql_scan_def sj)
  have sh: "foldl scan_step (0, False, [], []) hd_text = (0, False, [], groups)"
    unfolding hd_text_def groups_def by (rule scan_header)
  have sf: "foldl scan_step (0, False, [], us) ft_text
              = (0, False, [], us @ [[0x28, 0x2A, 0x29], [0x28, 0x2A, 0x29]])" for us
    unfolding ft_text_def by (rule scan_footer)
  have split: "generate_sql vs = hd_text @ vals @ ft_text"
    unfolding hd_text_def vals_def ft_text_def using eq by simp
  have "sql_scan (hd_text @ vals @ ft_text)
        = (0, False, [], (groups @ map (\<lambda>v. drop 4 (value_tuple v)) vs)
             @ [[0x28, 0x2A, 0x29], [0x28, 0x2A, 0x29]])"
    by (simp only: sql_scan_def foldl_append sh sj sf)
  then have whole: "sql_scan (generate_sql vs)
        = (0, False, [], groups @ map (\<lambda>v. drop 4 (value_tuple v)) vs
             @ [[0x28, 0x2A, 0x29], [0x28, 0x2A, 0x29]])"
    by (simp only: split append_assoc)
  have len: "length (sql_tuples (generate_sql vs)) = length vs + 4"
    by (simp add: sql_tuples_def whole groups_def)
  have lines: "sql_header_lines ! 8 = asc ''BEGIN;'' \<and>
   sql_header_lines ! 11 = asc ''INSERT INTO vocabulary ('' \<and>
   sql_header_lines ! 15 = asc '') VALUES'' \<and> length sql_header_lines = 16 \<and>
   sql_footer_lines ! 0 = asc '';'' \<and> sql_footer_lines ! 2 = asc ''COMMIT;''"
    by (simp add: sql_header_lines_def sql_footer_lines_def)
  have one: "filter (prefix (asc ''INSERT'')) (sql_header_lines @ sql_footer_lines)
     = [asc ''INSERT INTO vocabulary ('']"
    by (simp add: sql_header_lines_def sql_footer_lines_def asc_def)
  show ?thesis
    using eq rows sj[of ts] st whole len lines one
    unfolding vals_def groups_def
    by (intro conjI) simp_all
qed

text \<open>
  Two entries, the first with the meaning \<open>don't), ('x\<close>: the text between header and
  footer is their two tuples, and read back it is two tuples, the quote of the meaning
  doubled and its parentheses inside the literal.
\<close>

theorem generate_sql_single_insert_witness:
  "generate_sql
     [\<lparr>v_level = PStr (asc ''N1''), v_ref_no = Some 12, v_kanji = PStr [0x8DB3, 0x63BB, k_ku],
       v_hiragana = PNone,
       v_meaning_en = PStr (asc ''don'' @ [c_quote] @ asc ''t), ('' @ [c_quote] @ asc ''x''),
       v_example_before = PNone,
       v_example_after = PNone, v_hint = PNone, v_full_sentence = PNone, v_page_no = None,
       v_week = Some 1, v_day = Some 2, v_word_type = PStr (asc ''verb''),
       v_difficulty_level = 1\<rparr>,
      \<lparr>v_level = PStr (asc ''N2''), v_ref_no = None, v_kanji = PStr [0x6C34],
       v_hiragana = PNone, v_meaning_en = PNone, v_example_before = PNone,
       v_example_after = PNone, v_hint = PNone, v_full_sentence = PNone, v_page_no = Some 3,
       v_week = None, v_day = None, v_word_type = PNone, v_difficulty_level = 2\<rparr>]
   = py_join [c_newline] sql_header_lines @ [c_newline]
     @ (asc ''    ('N1', 12, '' @ [c_quote, 0x8DB3, 0x63BB, k_ku, c_quote]
        @ asc '', NULL, 'don'' @ [c_quote, c_quote] @ asc ''t), ('' @ [c_quote, c_quote]
        @ asc ''x','' @ [c_newline]
        @ asc ''     NULL, NULL, NULL, NULL,'' @ [c_newline]
        @ asc ''     NULL, (SELECT id FROM schedule WHERE week = 1 AND day = 2), 'verb', 1)'')
     @ asc '','' @ [c_newline]
     @ (asc ''    ('N2', NULL, '' @ [c_quote, 0x6C34, c_quote] @ asc '', NULL, NULL,'' @ [c_newline]
        @ asc ''     NULL, NULL, NULL, NULL,'' @ [c_newline]
        @ asc ''     3, NULL, NULL, 2)'')
     @ [c_newline] @ py_join [c_newline] sql_footer_lines \<and>
   sql_tuples (generate_sql
     [\<lparr>v_level = PStr (asc ''N1''), v_ref_no = Some 12, v_kanji = PStr [0x8DB3, 0x63BB, k_ku],
       v_hiragana = PNone,
       v_meaning_en = PStr (asc ''don'' @ [c_quote] @ asc ''t), ('' @ [c_quote] @ asc ''x''),
       v_example_before = PNone,
       v_example_after = PNone, v_hint = PNone, v_full_sentence = PNone, v_page_no = None,
       v_week = Some 1, v_day = Some 2, v_word_type = PStr (asc ''verb''),
       v_difficulty_level = 1\<rparr>,
      \<lparr>v_level = PStr (asc ''N2''), v_ref_no = None, v_kanji = PStr [0x6C34],
       v_hiragana = PNone, v_meaning_en = PNone, v_example_before = PNone,
       v_example_after = PNone, v_hint = PNone, v_full_sentence = PNone, v_page_no = Some 3,
       v_week = None, v_day = None, v_word_type = PNone, v_difficulty_level = 2\<rparr>])
   = [asc ''(N1 + N2 + N3)'',
      [0x28, c_newline] @ asc ''    level, ref_no, kanji, hiragana, meaning_en,'' @ [c_newline]
      @ asc ''    example_before, example_after, hint, full_sentence,'' @ [c_newline]
      @ asc ''    page_no, schedule_id, word_type, difficulty_level'' @ [c_newline, 0x29],
      asc ''('N1', 12, '' @ [c_quote, 0x8DB3, 0x63BB, k_ku, c_quote]
        @ asc '', NULL, 'don'' @ [c_quote, c_quote] @ asc ''t), ('' @ [c_quote, c_quote]
        @ asc ''x','' @ [c_newline]
        @ asc ''     NULL, NULL, NULL, NULL,'' @ [c_newline]
        @ asc ''     NULL, (SELECT id FROM schedule WHERE week = 1 AND day = 2), 'verb', 1)'',
      asc ''('N2', NULL, '' @ [c_quote, 0x6C34, c_quote] @ asc '', NULL, NULL,'' @ [c_newline]
        @ asc ''     NULL, NULL, NULL, NULL,'' @ [c_newline]
        @ asc ''     3, NULL, NULL, 2)'',
      [0x28, 0x2A, 0x29], [0x28, 0x2A, 0x29]]"
proof -
  let ?v1 = "\<lparr>v_level = PStr (asc ''N1''), v_ref_no = Some 12, v_kanji = PStr [0x8DB3, 0x63BB, k_ku],
       v_hiragana = PNone,
       v_meaning_en = PStr (asc ''don'' @ [c_quote] @ asc ''t), ('' @ [c_quote] @ asc ''x''),
       v_example_before = PNone,
       v_example_after = PNone, v_hint = PNone, v_full_sentence = PNone, v_page_no = None,
       v_week = Some 1, v_day = Some 2, v_word_type = PStr (asc ''verb''),
       v_difficulty_level = 1\<rparr>"
  let ?v2 = "\<lparr>v_level = PStr (asc ''N2''), v_ref_no = None, v_kanji = PStr [0x6C34],
       v_hiragana = PNone, v_meaning_en = PNone, v_example_before = PNone,
       v_example_after = PNone, v_hint = PNone, v_full_sentence = PNone, v_page_no = Some 3,
       v_week = None, v_day = None, v_word_type = PNone, v_difficulty_level = 2\<rparr>"
  let ?t1 = "asc ''    ('N1', 12, '' @ [c_quote, 0x8DB3, 0x63BB, k_ku, c_quote]
        @ asc '', NULL, 'don'' @ [c_quote, c_quote] @ asc ''t), ('' @ [c_quote, c_quote]
        @ asc ''x','' @ [c_newline]
        @ asc ''     NULL, NULL, NULL, NULL,'' @ [c_newline]
        @ asc ''     NULL, (SELECT id FROM schedule WHERE week = 1 AND day = 2), 'verb', 1)''"
  let ?t2 = "asc ''    ('N2', NULL, '' @ [c_quote, 0x6C34, c_quote]
        @ asc '', NULL, NULL,'' @ [c_newline]
        @ asc ''     NULL, NULL, NULL, NULL,'' @ [c_newline]
        @ asc ''     3, NULL, NULL, 2)''"
  have t1: "value_tuple ?v1 = ?t1"
    by (simp add: value_tuple_def escape_sql_string_def double_quotes_def int_or_null_def
          schedule_id_def str_int_def asc_def)
  have t2: "value_tuple ?v2 = ?t2"
    by (simp add: value_tuple_def escape_sql_string_def double_quotes_def int_or_null_def
          schedule_id_def str_int_def asc_def)
  let ?u1 = "asc ''('N1', 12, '' @ [c_quote, 0x8DB3, 0x63BB, k_ku, c_quote]
        @ asc '', NULL, 'don'' @ [c_quote, c_quote] @ asc ''t), ('' @ [c_quote, c_quote]
        @ asc ''x','' @ [c_newline]
        @ asc ''     NULL, NULL, NULL, NULL,'' @ [c_newline]
        @ asc ''     NULL, (SELECT id FROM schedule WHERE week = 1 AND day = 2), 'verb', 1)''"
  let ?u2 = "asc ''('N2', NULL, '' @ [c_quote, 0x6C34, c_quote]
        @ asc '', NULL, NULL,'' @ [c_newline]
        @ asc ''     NULL, NULL, NULL, NULL,'' @ [c_newline]
        @ asc ''     3, NULL, NULL, 2)''"
  have m: "map (\<lambda>v. drop 4 (value_tuple v)) [?v1, ?v2] = [?u1, ?u2]"
    by (simp add: value_tuple_def escape_sql_string_def double_quotes_def int_or_null_def
          schedule_id_def str_int_def asc_def)
  note th = generate_sql_single_insert[of "[?v1, ?v2]" "[]"]
  from th have a: "generate_sql [?v1, ?v2] =
     py_join [c_newline] sql_header_lines @ [c_newline]
     @ py_join (asc '','' @ [c_newline]) (map value_tuple [?v1, ?v2])
     @ [c_newline] @ py_join [c_newline] sql_footer_lines" by blast
  from th have b: "sql_scan (generate_sql [?v1, ?v2])
     = (0, False, [],
        [asc ''(N1 + N2 + N3)'',
         [0x28, c_newline] @ asc ''    level, ref_no, kanji, hiragana, meaning_en,'' @ [c_newline]
         @ asc ''    example_before, example_after, hint, full_sentence,'' @ [c_newline]
         @ asc ''    page_no, schedule_id, word_type, difficulty_level'' @ [c_newline, 0x29]]
        @ map (\<lambda>v. drop 4 (value_tuple v)) [?v1, ?v2]
        @ [[0x28, 0x2A, 0x29], [0x28, 0x2A, 0x29]])" by blast
  have a': "generate_sql [?v1, ?v2] =
     py_join [c_newline] sql_header_lines @ [c_newline]
     @ ?t1 @ asc '','' @ [c_newline] @ ?t2
     @ [c_newline] @ py_join [c_newline] sql_footer_lines"
    using a by (simp only: list.map py_join.simps t1 t2 append_assoc)
  have b': "sql_tuples (generate_sql [?v1, ?v2])
     = [asc ''(N1 + N2 + N3)'',
         [0x28, c_newline] @ asc ''    level, ref_no, kanji, hiragana, meaning_en,'' @ [c_newline]
         @ asc ''    example_before, example_after, hint, full_sentence,'' @ [c_newline]
         @ asc ''    page_no, schedule_id, word_type, difficulty_level'' @ [c_newline, 0x29]]
       @ [?u1, ?u2] @ [[0x28, 0x2A, 0x29], [0x28, 0x2A, 0x29]]"
    by (simp only: sql_tuples_def b m snd_conv)
  have c: "sql_tuples (generate_sql [?v1, ?v2])
     = [asc ''(N1 + N2 + N3)'',
         [0x28, c_newline] @ asc ''    level, ref_no, kanji, hiragana, meaning_en,'' @ [c_newline]
         @ asc ''    example_before, example_after, hint, full_sentence,'' @ [c_newline]
         @ asc ''    page_no, schedule_id, word_type, difficulty_level'' @ [c_newline, 0x29],
        ?u1, ?u2, [0x28, 0x2A, 0x29], [0x28, 0x2A, 0x29]]"
    using b' by simp
  from a' c show ?thesis by (simp only: append_assoc)
qed

end
